theory Spec2Isabelle
  imports Main "HOL-Library.Word" "HOL-Library.AList" "HOL-Library.Char_ord"
    "HOL-Library.List_Lexorder"
begin

section \<open>Multimodal embeddings script: data model\<close>

text \<open>
  The script \<^verbatim>\<open>index.js\<close> is sequential glue around three collaborators: the Node.js
  file system, the multimodal embedder and the Faiss vector store.  The script's own
  functions are embedded one by one below, in the order of the source; every effect of
  the source (a file-system call, an embedding call, a store call, a console line) is a
  step on an explicit \<open>world\<close>, and every exception is a \<open>Throw\<close> that carries the world
  reached when it was raised.  The collaborators are modelled only as far as the script
  observes them; each such model says what it stands for.
\<close>

type_synonym byte = "8 word"

text \<open>A Node \<^verbatim>\<open>Buffer\<close>.\<close>
type_synonym buffer = "byte list"

text \<open>
  An embedding vector.  The service returns floating-point arrays; the model keeps exact
  integer coordinates, so that equal vectors are exactly the vectors at distance zero.
\<close>
type_synonym vector = "int list"

text \<open>The metadata object of a document; \<open>path\<close> is present on image documents only.\<close>
record metadata =
  id_md :: int
  mediaType :: string
  path :: "string option"

text \<open>
  A LangChain \<^verbatim>\<open>Document\<close>.  Its page content can be absent: the constructor keeps a content
  only when it is truthy, and no other content than the empty string is falsy.
\<close>
record document =
  pageContent :: "string option"
  metadata :: metadata

text \<open>
  \<^verbatim>\<open>new Document({pageContent, metadata})\<close>, whose constructor sets
  \<^verbatim>\<open>this.pageContent = fields.pageContent ? fields.pageContent.toString() : this.pageContent\<close>:
  the document of an empty content has no content.
\<close>
definition Document :: "string \<Rightarrow> metadata \<Rightarrow> document" where
  "Document content m =
     \<lparr>pageContent = (if content = [] then None else Some content), metadata = m\<rparr>"

type_synonym store = "(vector \<times> document) list"

datatype error =
    ENOENT string
  | EISDIR string
  | ENOTDIR string
  | EEXIST string
  | EmbeddingError
  | StoreError
  | TypeError

text \<open>
  The file system is flat: a path names a regular file, a directory, or a directory that
  \<^verbatim>\<open>FaissStore.save\<close> has written (its files belong to the library and are kept as the
  saved pairs).  A lookup reads the first binding of a path.
\<close>
datatype node = File buffer | Directory | StoreDir store

type_synonym fs = "(string \<times> node) list"

text \<open>Every call that leaves the script, in the order the calls are made.\<close>
datatype event =
    Exists string
  | ReadFile string
  | Readdir string
  | Unlink string
  | WriteFile string buffer
  | EmbedImage buffer
  | EmbedText string
  | AddVectors vector document
  | Search vector nat
  | Load string
  | Save string
  | Log string

record world =
  disk :: fs
  vectorStore :: store
  trace :: "event list"

datatype 'a result = Return 'a world | Throw error world

fun world_of :: "'a result \<Rightarrow> world" where
  "world_of (Return x w) = w"
| "world_of (Throw e w) = w"

fun returns :: "'a result \<Rightarrow> bool" where
  "returns (Return x w) = True"
| "returns (Throw e w) = False"

text \<open>Sequencing of two awaited steps: an exception of the first skips the second.\<close>
fun andThen :: "'a result \<Rightarrow> ('a \<Rightarrow> world \<Rightarrow> 'b result) \<Rightarrow> 'b result" where
  "andThen (Return x w) f = f x w"
| "andThen (Throw e w) f = Throw e w"

definition emit :: "event \<Rightarrow> world \<Rightarrow> world" where
  "emit e w = w\<lparr>trace := trace w @ [e]\<rparr>"

text \<open>
  The parameters of the model.  The first two are the embedder,
  \<^verbatim>\<open>new GoogleVertexAIMultimodalEmbeddings()\<close>.  The third is the text that the runtime
  prints for a number outside the safe integers: a JavaScript number is a double, which
  beyond \<^verbatim>\<open>Number.MAX_SAFE_INTEGER\<close> is printed with rounded digits or with an exponent,
  and the model, whose identifiers are integers, does not compute that text.
\<close>
record env =
  embedImageQuery :: "buffer \<Rightarrow> error + vector"
  embedQuery :: "string \<Rightarrow> error + vector"
  largeNumber :: "int \<Rightarrow> string"

definition vectorStorePath :: string where
  "vectorStorePath = ''vector_store''"

section \<open>The collaborators\<close>

subsection \<open>Strings\<close>

text \<open>\<^verbatim>\<open>String.prototype.split\<close> on a one-character separator; the result is never empty.\<close>
fun split :: "char \<Rightarrow> string \<Rightarrow> string list" where
  "split c [] = [ [] ]"
| "split c (x # xs) =
     (if x = c then [] # split c xs
      else (let r = split c xs in (x # hd r) # tl r))"

text \<open>\<^verbatim>\<open>Array.prototype.pop\<close>, for its value: \<^verbatim>\<open>undefined\<close> on an empty array.\<close>
definition pop :: "'a list \<Rightarrow> 'a option" where
  "pop xs = (if xs = [] then None else Some (last xs))"

function digits :: "nat \<Rightarrow> string" where
  "digits n = (if n < 10 then [char_of (48 + n)] else digits (n div 10) @ [char_of (48 + n mod 10)])"
  by pat_completeness auto
termination
  by (relation "measure (\<lambda>n. n)") auto

definition show_int :: "int \<Rightarrow> string" where
  "show_int i = (if i < 0 then CHR ''-'' # digits (nat (- i)) else digits (nat i))"

definition MAX_SAFE_INTEGER :: int where
  "MAX_SAFE_INTEGER = 9007199254740991"

text \<open>
  \<^verbatim>\<open>Number.prototype.toString\<close> on an integer: all its decimal digits as long as it is a
  safe integer, and otherwise the text that the runtime gives.
\<close>
definition show_number :: "env \<Rightarrow> int \<Rightarrow> string" where
  "show_number E i =
     (if - MAX_SAFE_INTEGER \<le> i \<and> i \<le> MAX_SAFE_INTEGER then show_int i else largeNumber E i)"

definition hex_digit :: "nat \<Rightarrow> char" where
  "hex_digit n = (if n < 10 then char_of (48 + n) else char_of (87 + n))"

text \<open>
  One character inside a JSON string literal: the quote and the backslash are escaped,
  the control characters are written by their short escapes or as \<^verbatim>\<open>\u00XX\<close>.
\<close>
definition json_escape :: "char \<Rightarrow> string" where
  "json_escape c =
     (if c = CHR 0x22 then [CHR 0x5C, CHR 0x22]
      else if c = CHR 0x5C then [CHR 0x5C, CHR 0x5C]
      else if c = CHR 0x08 then [CHR 0x5C, CHR ''b'']
      else if c = CHR 0x0C then [CHR 0x5C, CHR ''f'']
      else if c = CHR 0x0A then [CHR 0x5C, CHR ''n'']
      else if c = CHR 0x0D then [CHR 0x5C, CHR ''r'']
      else if c = CHR 0x09 then [CHR 0x5C, CHR ''t'']
      else if (of_char c :: nat) < 32
      then [CHR 0x5C, CHR ''u'', CHR ''0'', CHR ''0'',
            hex_digit ((of_char c :: nat) div 16), hex_digit ((of_char c :: nat) mod 16)]
      else [c])"

definition json_string :: "string \<Rightarrow> string" where
  "json_string s = [CHR 0x22] @ concat (map json_escape s) @ [CHR 0x22]"

text \<open>\<^verbatim>\<open>JSON.stringify\<close> on a metadata object; an absent \<open>path\<close> prints no key.\<close>
definition JSON_stringify :: "env \<Rightarrow> metadata \<Rightarrow> string" where
  "JSON_stringify E m =
     ''{'' @ json_string ''id'' @ '':'' @ show_number E (id_md m) @ '','' @
     json_string ''mediaType'' @ '':'' @ json_string (mediaType m) @
     (case path m of None \<Rightarrow> [] | Some p \<Rightarrow> '','' @ json_string ''path'' @ '':'' @ json_string p)
     @ ''}''"

subsection \<open>Base64\<close>

definition b64_char :: "nat \<Rightarrow> char" where
  "b64_char n =
     (if n < 26 then char_of (65 + n)
      else if n < 52 then char_of (71 + n)
      else if n < 62 then char_of (n - 4)
      else if n = 62 then CHR ''+'' else CHR ''/'')"

text \<open>The decoder also reads the URL-safe letters, as Node does.\<close>
definition b64_value :: "char \<Rightarrow> nat option" where
  "b64_value c =
     (let k = (of_char c :: nat) in
      if 65 \<le> k \<and> k \<le> 90 then Some (k - 65)
      else if 97 \<le> k \<and> k \<le> 122 then Some (k - 71)
      else if 48 \<le> k \<and> k \<le> 57 then Some (k + 4)
      else if c = CHR ''+'' \<or> c = CHR ''-'' then Some 62
      else if c = CHR ''/'' \<or> c = CHR ''_'' then Some 63
      else None)"

fun sextets :: "buffer \<Rightarrow> nat list" where
  "sextets (a # b # c # rest) =
     (let n = unat a * 65536 + unat b * 256 + unat c
      in [n div 262144, n div 4096 mod 64, n div 64 mod 64, n mod 64] @ sextets rest)"
| "sextets [a, b] =
     (let n = unat a * 65536 + unat b * 256
      in [n div 262144, n div 4096 mod 64, n div 64 mod 64])"
| "sextets [a] =
     (let n = unat a * 65536 in [n div 262144, n div 4096 mod 64])"
| "sextets [] = []"

definition padding :: "nat \<Rightarrow> string" where
  "padding len = replicate ((3 - len mod 3) mod 3) (CHR ''='')"

text \<open>\<^verbatim>\<open>buf.toString("base64")\<close>.\<close>
definition toString_base64 :: "buffer \<Rightarrow> string" where
  "toString_base64 b = map b64_char (sextets b) @ padding (length b)"

fun bytes_of_sextets :: "nat list \<Rightarrow> buffer" where
  "bytes_of_sextets (p # q # r # s # rest) =
     (let n = p * 262144 + q * 4096 + r * 64 + s
      in [of_nat (n div 65536), of_nat (n div 256 mod 256), of_nat (n mod 256)]
         @ bytes_of_sextets rest)"
| "bytes_of_sextets [p, q, r] =
     (let n = p * 262144 + q * 4096 + r * 64
      in [of_nat (n div 65536), of_nat (n div 256 mod 256)])"
| "bytes_of_sextets [p, q] =
     (let n = p * 262144 + q * 4096 in [of_nat (n div 65536)])"
| "bytes_of_sextets [p] = []"
| "bytes_of_sextets [] = []"

text \<open>
  \<^verbatim>\<open>Buffer.from(s, "base64")\<close>, which \<^verbatim>\<open>writeFileSync(_, s, "base64")\<close> applies to its data:
  decoding stops at the first padding sign and skips every character outside the alphabet.
\<close>
definition from_base64 :: "string \<Rightarrow> buffer" where
  "from_base64 s =
     bytes_of_sextets (List.map_filter b64_value (takeWhile (\<lambda>c. c \<noteq> CHR ''='') s))"

subsection \<open>File system\<close>

definition is_dir :: "node \<Rightarrow> bool" where
  "is_dir n = (case n of File b \<Rightarrow> False | Directory \<Rightarrow> True | StoreDir s \<Rightarrow> True)"

text \<open>A name that a directory can list: one segment, neither empty nor a dot entry.\<close>
definition valid_name :: "string \<Rightarrow> bool" where
  "valid_name n = (n \<noteq> [] \<and> CHR ''/'' \<notin> set n \<and> n \<noteq> ''.'' \<and> n \<noteq> ''..'')"

text \<open>\<^verbatim>\<open>path.join(d, f)\<close> for a listed name \<open>f\<close>, where nothing is left to normalise.\<close>
definition path_join :: "string \<Rightarrow> string \<Rightarrow> string" where
  "path_join d f = d @ ''/'' @ f"

definition child_name :: "string \<Rightarrow> string \<Rightarrow> string option" where
  "child_name d k =
     (let n = drop (length d + 1) k
      in if take (length d + 1) k = d @ ''/'' \<and> valid_name n then Some n else None)"

text \<open>The names that \<^verbatim>\<open>readdirSync\<close> lists for a directory: every name once, sorted.\<close>
definition entries :: "fs \<Rightarrow> string \<Rightarrow> string list" where
  "entries f d = sort (remdups (List.map_filter (child_name d) (map fst f)))"

definition dirname :: "string \<Rightarrow> string" where
  "dirname p = rev (drop 1 (dropWhile (\<lambda>c. c \<noteq> CHR ''/'') (rev p)))"

definition basename :: "string \<Rightarrow> string" where
  "basename p = rev (takeWhile (\<lambda>c. c \<noteq> CHR ''/'') (rev p))"

definition existsSync :: "string \<Rightarrow> world \<Rightarrow> bool result" where
  "existsSync p w = Return (map_of (disk w) p \<noteq> None) (emit (Exists p) w)"

definition readFileSync :: "string \<Rightarrow> world \<Rightarrow> buffer result" where
  "readFileSync p w =
     (let w' = emit (ReadFile p) w
      in case map_of (disk w) p of
           None \<Rightarrow> Throw (ENOENT p) w'
         | Some (File b) \<Rightarrow> Return b w'
         | Some Directory \<Rightarrow> Throw (EISDIR p) w'
         | Some (StoreDir s) \<Rightarrow> Throw (EISDIR p) w')"

definition readdirSync :: "string \<Rightarrow> world \<Rightarrow> string list result" where
  "readdirSync d w =
     (let w' = emit (Readdir d) w
      in case map_of (disk w) d of
           None \<Rightarrow> Throw (ENOENT d) w'
         | Some (File b) \<Rightarrow> Throw (ENOTDIR d) w'
         | Some Directory \<Rightarrow> Return (entries (disk w) d) w'
         | Some (StoreDir s) \<Rightarrow> Return (entries (disk w) d) w')"

text \<open>\<^verbatim>\<open>unlink\<close> removes a regular file and refuses a directory.\<close>
definition unlinkSync :: "string \<Rightarrow> world \<Rightarrow> unit result" where
  "unlinkSync p w =
     (let w' = emit (Unlink p) w
      in case map_of (disk w) p of
           None \<Rightarrow> Throw (ENOENT p) w'
         | Some (File b) \<Rightarrow> Return () (w'\<lparr>disk := AList.delete p (disk w)\<rparr>)
         | Some Directory \<Rightarrow> Throw (EISDIR p) w'
         | Some (StoreDir s) \<Rightarrow> Throw (EISDIR p) w')"

text \<open>
  \<^verbatim>\<open>writeFileSync(p, data, "base64")\<close> on a string: the directory of \<open>p\<close> must exist (a
  path of one segment lies in the working directory), and \<open>p\<close> must not name a directory.
\<close>
definition write_string :: "string \<Rightarrow> string \<Rightarrow> world \<Rightarrow> unit result" where
  "write_string p data w =
     (let bytes = from_base64 data;
          w' = emit (WriteFile p bytes) w;
          parent = (if CHR ''/'' \<in> set p then map_of (disk w) (dirname p) else Some Directory)
      in if \<not> valid_name (basename p) then Throw (EISDIR p) w'
         else case parent of
           None \<Rightarrow> Throw (ENOENT p) w'
         | Some (File b) \<Rightarrow> Throw (ENOTDIR p) w'
         | Some _ \<Rightarrow>
            (case map_of (disk w) p of
               Some Directory \<Rightarrow> Throw (EISDIR p) w'
             | Some (StoreDir s) \<Rightarrow> Throw (EISDIR p) w'
             | _ \<Rightarrow> Return () (w'\<lparr>disk := AList.update p (File bytes) (disk w)\<rparr>)))"

text \<open>
  \<^verbatim>\<open>writeFileSync(p, data, "base64")\<close> on the content of a document: data that is
  \<^verbatim>\<open>undefined\<close> is refused with a \<^verbatim>\<open>TypeError\<close> when the arguments are checked, before
  the file system is asked anything; the refused call is no event of the model.
\<close>
definition writeFileSync :: "string \<Rightarrow> string option \<Rightarrow> world \<Rightarrow> unit result" where
  "writeFileSync p data w =
     (case data of None \<Rightarrow> Throw TypeError w | Some s \<Rightarrow> write_string p s w)"

definition console_log :: "string \<Rightarrow> world \<Rightarrow> unit result" where
  "console_log s w = Return () (emit (Log s) w)"

subsection \<open>Embedder and vector store\<close>

definition call_embedImageQuery :: "env \<Rightarrow> buffer \<Rightarrow> world \<Rightarrow> vector result" where
  "call_embedImageQuery E img w =
     (let w' = emit (EmbedImage img) w
      in case embedImageQuery E img of Inl e \<Rightarrow> Throw e w' | Inr v \<Rightarrow> Return v w')"

definition call_embedQuery :: "env \<Rightarrow> string \<Rightarrow> world \<Rightarrow> vector result" where
  "call_embedQuery E text w =
     (let w' = emit (EmbedText text) w
      in case embedQuery E text of Inl e \<Rightarrow> Throw e w' | Inr v \<Rightarrow> Return v w')"

text \<open>
  \<^verbatim>\<open>vectorStore.addVectors([v], [d])\<close>: the first vector fixes the dimension of the index,
  a vector of another length is refused, and the pair is appended.
\<close>
definition addVectors :: "vector \<Rightarrow> document \<Rightarrow> world \<Rightarrow> unit result" where
  "addVectors v d w =
     (let w' = emit (AddVectors v d) w
      in case vectorStore w of
           [] \<Rightarrow> Return () (w'\<lparr>vectorStore := [(v, d)]\<rparr>)
         | (u, x) # rest \<Rightarrow>
             if length v = length u
             then Return () (w'\<lparr>vectorStore := vectorStore w @ [(v, d)]\<rparr>)
             else Throw StoreError w')"

definition l2_distance :: "vector \<Rightarrow> vector \<Rightarrow> int" where
  "l2_distance x y = sum_list (map (\<lambda>(a, b). (a - b) * (a - b)) (zip x y))"

text \<open>
  \<^verbatim>\<open>similaritySearchVectorWithScore(q, k)\<close> on a flat L2 index: an index that was never
  filled and a query of the wrong dimension are refused; otherwise the \<open>k\<close> nearest
  documents with their squared distances, nearest first, equal distances in insertion
  order.  The warning that the library prints when \<open>k\<close> exceeds the number of stored
  vectors is not an event of the model.
\<close>
definition nearest :: "store \<Rightarrow> vector \<Rightarrow> nat \<Rightarrow> (document \<times> int) list" where
  "nearest s q k =
     take k (map (\<lambda>(v, d). (d, l2_distance q v)) (sort_key (\<lambda>(v, d). l2_distance q v) s))"

definition similaritySearchVectorWithScore ::
    "vector \<Rightarrow> nat \<Rightarrow> world \<Rightarrow> (document \<times> int) list result" where
  "similaritySearchVectorWithScore q k w =
     (let w' = emit (Search q k) w
      in case vectorStore w of
           [] \<Rightarrow> Throw StoreError w'
         | (u, x) # rest \<Rightarrow>
             if length q = length u
             then Return (nearest (vectorStore w) q k) w'
             else Throw StoreError w')"

text \<open>\<^verbatim>\<open>FaissStore.load(p)\<close> reads back what \<^verbatim>\<open>save\<close> wrote at \<open>p\<close>.\<close>
definition FaissStore_load :: "string \<Rightarrow> world \<Rightarrow> store result" where
  "FaissStore_load p w =
     (let w' = emit (Load p) w
      in case map_of (disk w) p of
           Some (StoreDir s) \<Rightarrow> Return s w'
         | Some (File b) \<Rightarrow> Throw (ENOTDIR p) w'
         | Some Directory \<Rightarrow> Throw (ENOENT p) w'
         | None \<Rightarrow> Throw (ENOENT p) w')"

text \<open>
  \<^verbatim>\<open>vectorStore.save(p)\<close>: \<^verbatim>\<open>mkdir(p, {recursive: true})\<close>, then the index and the
  documents are written; an index that was never filled cannot be written.
\<close>
definition FaissStore_save :: "string \<Rightarrow> world \<Rightarrow> unit result" where
  "FaissStore_save p w =
     (let w' = emit (Save p) w
      in case map_of (disk w) p of
           Some (File b) \<Rightarrow> Throw (EEXIST p) w'
         | other \<Rightarrow>
             if vectorStore w = []
             then Throw StoreError
                    (w'\<lparr>disk := (if other = None then AList.update p Directory (disk w) else disk w)\<rparr>)
             else Return () (w'\<lparr>disk := AList.update p (StoreDir (vectorStore w)) (disk w)\<rparr>))"

section \<open>The script\<close>

subsection \<open>\<^verbatim>\<open>clearDirectory\<close>\<close>

text \<open>The \<^verbatim>\<open>forEach\<close> over the listed names; an exception of one \<^verbatim>\<open>unlinkSync\<close> ends it.\<close>
fun forEach_unlink :: "string \<Rightarrow> string list \<Rightarrow> world \<Rightarrow> unit result" where
  "forEach_unlink directoryPath [] w = Return () w"
| "forEach_unlink directoryPath (file # rest) w =
     (case unlinkSync (path_join directoryPath file) w of
        Throw e w' \<Rightarrow> Throw e w'
      | Return u w' \<Rightarrow> forEach_unlink directoryPath rest w')"

definition clearDirectory :: "string \<Rightarrow> world \<Rightarrow> unit result" where
  "clearDirectory directoryPath w =
     andThen (readdirSync directoryPath w) (\<lambda>files w1. forEach_unlink directoryPath files w1)"

subsection \<open>\<^verbatim>\<open>addImage\<close> and \<^verbatim>\<open>addText\<close>\<close>

definition addImage :: "env \<Rightarrow> string \<Rightarrow> int \<Rightarrow> world \<Rightarrow> unit result" where
  "addImage E p i w =
     andThen (readFileSync p w) (\<lambda>img w1.
     andThen (call_embedImageQuery E img w1) (\<lambda>vectors w2.
       let doc = Document (toString_base64 img)
                   \<lparr>id_md = i, mediaType = ''image'', path = Some p\<rparr>
       in andThen (addVectors vectors doc w2) (\<lambda>u w3.
          console_log (''Image '' @ p @ '' added.'') w3)))"

definition addText :: "env \<Rightarrow> string \<Rightarrow> int \<Rightarrow> world \<Rightarrow> unit result" where
  "addText E text i w =
     andThen (call_embedQuery E text w) (\<lambda>vectors w1.
       let doc = Document text \<lparr>id_md = i, mediaType = ''text'', path = None\<rparr>
       in andThen (addVectors vectors doc w1) (\<lambda>u w2.
          console_log (''Text '' @ [CHR 0x22] @ text @ [CHR 0x22] @ '' added.'') w2))"

subsection \<open>\<^verbatim>\<open>printResults\<close>\<close>

text \<open>A string value inside a template literal: \<^verbatim>\<open>undefined\<close> is printed by its name.\<close>
definition template :: "string option \<Rightarrow> string" where
  "template x = (case x of None \<Rightarrow> ''undefined'' | Some s \<Rightarrow> s)"

text \<open>The body of the \<^verbatim>\<open>forEach\<close> callback, for one \<open>[document, score]\<close> pair.\<close>
definition print_item :: "env \<Rightarrow> document \<times> int \<Rightarrow> world \<Rightarrow> unit result" where
  "print_item E item w =
     andThen (console_log (JSON_stringify E (metadata (fst item))) w) (\<lambda>u w1.
       if mediaType (metadata (fst item)) = ''text''
       then console_log (''Text: '' @ template (pageContent (fst item))) w1
       else if mediaType (metadata (fst item)) = ''image''
       then (case path (metadata (fst item)) of
               None \<Rightarrow> Throw TypeError w1
             | Some p \<Rightarrow>
                 let filename = template (pop (split (CHR ''/'') p))
                 in writeFileSync (''output/'' @ filename) (pageContent (fst item)) w1)
       else Return () w1)"

fun printResults :: "env \<Rightarrow> (document \<times> int) list \<Rightarrow> world \<Rightarrow> unit result" where
  "printResults E [] w = Return () w"
| "printResults E (item # rest) w =
     (case print_item E item w of
        Throw e w' \<Rightarrow> Throw e w'
      | Return u w' \<Rightarrow> printResults E rest w')"

subsection \<open>The two searches\<close>

definition imageSimilaritySearch :: "env \<Rightarrow> string \<Rightarrow> nat \<Rightarrow> world \<Rightarrow> unit result" where
  "imageSimilaritySearch E p results w =
     andThen (clearDirectory ''output'' w) (\<lambda>u w1.
     andThen (console_log ''Performing image similarity search.'' w1) (\<lambda>u w2.
     andThen (readFileSync p w2) (\<lambda>imageQuery w3.
     andThen (call_embedImageQuery E imageQuery w3) (\<lambda>imageVectors w4.
     andThen (similaritySearchVectorWithScore imageVectors results w4) (\<lambda>imageResult w5.
     andThen (console_log (''Similarity search results for image query: '' @ p) w5) (\<lambda>u w6.
       printResults E imageResult w6))))))"

definition textSimilaritySearch :: "env \<Rightarrow> string \<Rightarrow> nat \<Rightarrow> world \<Rightarrow> unit result" where
  "textSimilaritySearch E text results w =
     andThen (clearDirectory ''output'' w) (\<lambda>u w1.
     andThen (console_log ''Performing text similarity search.'' w1) (\<lambda>u w2.
     andThen (call_embedQuery E text w2) (\<lambda>textVectors w3.
     andThen (similaritySearchVectorWithScore textVectors results w3) (\<lambda>textResult w4.
     andThen (console_log (''Similarity search results for text query: '' @ text) w4) (\<lambda>u w5.
       printResults E textResult w5)))))"

subsection \<open>Ingestion\<close>

definition images :: "string list" where
  "images = [''images/dog.jpeg'', ''images/cat.jpg'', ''images/parrot.jpg'',
             ''images/iphone.jpeg'', ''images/steve.jpeg'', ''images/airpod.jpeg'']"

definition texts :: "string list" where
  "texts = [''Dogs are domesticated mammals.'',
            ''Apple Inc. is an American multinational technology company.'',
            ''Steve Jobs was the chairman, chief executive officer, and co-founder of Apple Inc.'']"

text \<open>
  \<^verbatim>\<open>for (let i = 0; i < images.length; i++, imageId++) await addImage(images[i], imageId)\<close>,
  from any \<open>i\<close> and \<open>imageId\<close>.
\<close>
function images_loop :: "env \<Rightarrow> string list \<Rightarrow> nat \<Rightarrow> int \<Rightarrow> world \<Rightarrow> unit result" where
  "images_loop E imgs i imageId w =
     (if i < length imgs
      then (case addImage E (imgs ! i) imageId w of
              Throw e w' \<Rightarrow> Throw e w'
            | Return u w' \<Rightarrow> images_loop E imgs (i + 1) (imageId + 1) w')
      else Return () w)"
  by pat_completeness auto
termination
  by (relation "measure (\<lambda>(E, imgs, i, imageId, w). length imgs - i)") auto

function texts_loop :: "env \<Rightarrow> string list \<Rightarrow> nat \<Rightarrow> int \<Rightarrow> world \<Rightarrow> unit result" where
  "texts_loop E txts i textId w =
     (if i < length txts
      then (case addText E (txts ! i) textId w of
              Throw e w' \<Rightarrow> Throw e w'
            | Return u w' \<Rightarrow> texts_loop E txts (i + 1) (textId + 1) w')
      else Return () w)"
  by pat_completeness auto
termination
  by (relation "measure (\<lambda>(E, txts, i, textId, w). length txts - i)") auto

definition addItemsToVectorStore :: "env \<Rightarrow> world \<Rightarrow> unit result" where
  "addItemsToVectorStore E w =
     andThen (existsSync vectorStorePath w) (\<lambda>ex w1.
       if \<not> ex
       then andThen (images_loop E images 0 0 w1) (\<lambda>u w2.
              texts_loop E texts 0 (int (length images)) w2)
       else Return () w1)"

subsection \<open>The top level\<close>

text \<open>
  \<^verbatim>\<open>let vectorStore = fs.existsSync(vectorStorePath) ? await FaissStore.load(vectorStorePath)
  : new FaissStore(embeddings, {})\<close>: a new store holds no pair.
\<close>
definition init_vectorStore :: "world \<Rightarrow> unit result" where
  "init_vectorStore w =
     andThen (existsSync vectorStorePath w) (\<lambda>ex w1.
     andThen (if ex then FaissStore_load vectorStorePath w1 else Return [] w1) (\<lambda>s w2.
       Return () (w2\<lparr>vectorStore := s\<rparr>)))"

definition initial_world :: "fs \<Rightarrow> world" where
  "initial_world f = \<lparr>disk = f, vectorStore = [], trace = []\<rparr>"

text \<open>The module body once the store handle is initialised: lines 122 to 132 of the source.\<close>
definition body :: "env \<Rightarrow> world \<Rightarrow> unit result" where
  "body E w1 =
     andThen (addItemsToVectorStore E w1) (\<lambda>u w2.
     andThen (textSimilaritySearch E ''Mammals'' 1 w2) (\<lambda>u w3.
       FaissStore_save vectorStorePath w3))"

text \<open>The module body, run on a file system: lines 90 to 132 of the source.\<close>
definition main :: "env \<Rightarrow> fs \<Rightarrow> unit result" where
  "main E f = andThen (init_vectorStore (initial_world f)) (\<lambda>u w1. body E w1)"

section \<open>Vocabulary of the properties\<close>

subsection \<open>Kinds of events\<close>

fun is_embed :: "event \<Rightarrow> bool" where
  "is_embed (EmbedImage b) = True"
| "is_embed (EmbedText t) = True"
| "is_embed e = False"

fun is_add :: "event \<Rightarrow> bool" where
  "is_add (AddVectors v d) = True"
| "is_add e = False"

fun is_save :: "event \<Rightarrow> bool" where
  "is_save (Save p) = True"
| "is_save e = False"

fun is_search :: "event \<Rightarrow> bool" where
  "is_search (Search v k) = True"
| "is_search e = False"

definition embed_calls :: "event list \<Rightarrow> nat" where
  "embed_calls t = length (filter is_embed t)"

definition add_calls :: "event list \<Rightarrow> nat" where
  "add_calls t = length (filter is_add t)"

text \<open>The events that ingestion may cause: reads, embedding calls, additions, console lines.\<close>
fun ingest_event :: "event \<Rightarrow> bool" where
  "ingest_event (ReadFile p) = True"
| "ingest_event (EmbedImage b) = True"
| "ingest_event (EmbedText t) = True"
| "ingest_event (AddVectors v d) = True"
| "ingest_event (Log s) = True"
| "ingest_event e = False"

fun clear_event :: "event \<Rightarrow> bool" where
  "clear_event (Readdir d) = True"
| "clear_event (Unlink p) = True"
| "clear_event e = False"

text \<open>The events that a search may cause once the output directory is cleared.\<close>
fun query_event :: "event \<Rightarrow> bool" where
  "query_event (Log s) = True"
| "query_event (ReadFile p) = True"
| "query_event (EmbedImage b) = True"
| "query_event (EmbedText t) = True"
| "query_event (Search v k) = True"
| "query_event (WriteFile p b) = True"
| "query_event e = False"

fun print_event :: "event \<Rightarrow> bool" where
  "print_event (Log s) = True"
| "print_event (WriteFile p b) = True"
| "print_event e = False"

fun tail_event :: "event \<Rightarrow> bool" where
  "tail_event (Search v k) = True"
| "tail_event (Log s) = True"
| "tail_event (WriteFile p b) = True"
| "tail_event e = False"

fun error_of :: "'a result \<Rightarrow> error option" where
  "error_of (Return x w) = None"
| "error_of (Throw e w) = Some e"

subsection \<open>What the catalog stores\<close>

text \<open>
  What the catalog should put into the store, in the words of the specification: the
  image at \<open>p\<close> with identifier \<open>i\<close> is stored as its embedding and a document of its
  Base64 text, tagged \<open>image\<close> and carrying \<open>p\<close>; a text is stored as its embedding and a
  document of the text, tagged \<open>text\<close> and carrying no path.  There is no entry where the
  file cannot be read or the embedder fails.  The documents are made by the \<^verbatim>\<open>Document\<close>
  class, so the document of an empty file has no content.
\<close>
definition image_entry :: "env \<Rightarrow> fs \<Rightarrow> string \<Rightarrow> int \<Rightarrow> (vector \<times> document) option" where
  "image_entry E f p i =
     (case map_of f p of
        Some (File img) \<Rightarrow>
          (case embedImageQuery E img of
             Inr v \<Rightarrow> Some (v, Document (toString_base64 img)
                               \<lparr>id_md = i, mediaType = ''image'', path = Some p\<rparr>)
           | Inl e \<Rightarrow> None)
      | _ \<Rightarrow> None)"

definition text_entry :: "env \<Rightarrow> string \<Rightarrow> int \<Rightarrow> (vector \<times> document) option" where
  "text_entry E t i =
     (case embedQuery E t of
        Inr v \<Rightarrow> Some (v, Document t \<lparr>id_md = i, mediaType = ''text'', path = None\<rparr>)
      | Inl e \<Rightarrow> None)"

text \<open>The catalog in order: the i-th image has identifier i, the j-th text 6 + j.\<close>
definition catalog_entries :: "env \<Rightarrow> fs \<Rightarrow> (vector \<times> document) option list" where
  "catalog_entries E f =
     map (\<lambda>i. image_entry E f (images ! i) (int i)) [0..<6] @
     map (\<lambda>j. text_entry E (texts ! j) (6 + int j)) [0..<3]"

definition catalog_metadata :: "metadata list" where
  "catalog_metadata =
     map (\<lambda>i. \<lparr>id_md = int i, mediaType = ''image'', path = Some (images ! i)\<rparr>) [0..<6] @
     map (\<lambda>j. \<lparr>id_md = 6 + int j, mediaType = ''text'', path = None\<rparr>) [0..<3]"

text \<open>
  A run of ingestion steps from \<open>w\<close> with outcome \<open>r\<close>, against the entries \<open>expected\<close>:
  the disk is untouched, the store has grown by a prefix of the expected entries (all of
  them exactly when the run returned), and the events are ingestion events with one
  embedding call and one addition per stored entry, and at most one more of each for
  the entry at which the run threw: an entry that is missing, or one that the store
  refused.
\<close>
definition ingest_summary ::
    "world \<Rightarrow> unit result \<Rightarrow> (vector \<times> document) option list \<Rightarrow> bool" where
  "ingest_summary w r expected =
     (\<exists>new t.
        disk (world_of r) = disk w \<and>
        vectorStore (world_of r) = vectorStore w @ new \<and>
        trace (world_of r) = trace w @ t \<and>
        length new \<le> length expected \<and>
        map Some new = take (length new) expected \<and>
        (returns r \<longleftrightarrow> length new = length expected) \<and>
        list_all ingest_event t \<and>
        length new \<le> embed_calls t \<and> embed_calls t \<le> length new + 1 \<and>
        length new \<le> add_calls t \<and> add_calls t \<le> length new + 1 \<and>
        (returns r \<longrightarrow> embed_calls t = length new \<and> add_calls t = length new) \<and>
        (add_calls t = length new + 1 \<longrightarrow> error_of r = Some StoreError) \<and>
        (\<not> returns r \<longrightarrow> expected ! length new = None \<or> add_calls t = length new + 1))"

text \<open>
  The calls that the script makes for one catalog item, in the words of the
  specification: an image is read, embedded, added and announced, a text is embedded,
  added and announced; a read or an embedding call that fails is the last call for the
  item.
\<close>
definition image_events :: "env \<Rightarrow> fs \<Rightarrow> string \<Rightarrow> int \<Rightarrow> event list" where
  "image_events E f p i =
     ReadFile p #
     (case map_of f p of
        Some (File img) \<Rightarrow>
          EmbedImage img #
          (case embedImageQuery E img of
             Inr v \<Rightarrow> [AddVectors v (Document (toString_base64 img)
                                     \<lparr>id_md = i, mediaType = ''image'', path = Some p\<rparr>),
                      Log (''Image '' @ p @ '' added.'')]
           | Inl e \<Rightarrow> [])
      | _ \<Rightarrow> [])"

definition text_events :: "env \<Rightarrow> string \<Rightarrow> int \<Rightarrow> event list" where
  "text_events E t i =
     EmbedText t #
     (case embedQuery E t of
        Inr v \<Rightarrow> [AddVectors v (Document t \<lparr>id_md = i, mediaType = ''text'', path = None\<rparr>),
                 Log (''Text \"'' @ t @ ''\" added.'')]
      | Inl e \<Rightarrow> [])"

definition catalog_events :: "env \<Rightarrow> fs \<Rightarrow> event list list" where
  "catalog_events E f =
     map (\<lambda>i. image_events E f (images ! i) (int i)) [0..<6] @
     map (\<lambda>j. text_events E (texts ! j) (6 + int j)) [0..<3]"

text \<open>
  The events of a run of ingestion steps that stored \<open>m\<close> entries: all the calls for the
  first \<open>m\<close> items and, unless the run returned, the calls for item \<open>m\<close> up to the one that
  failed: the read or the embedding call when the item has no entry, and otherwise the
  addition, which the store refused.
\<close>
definition ingest_events ::
    "event list list \<Rightarrow> (vector \<times> document) option list \<Rightarrow> nat \<Rightarrow> bool \<Rightarrow> event list" where
  "ingest_events attempts expected m returned =
     concat (take m attempts) @
     (if returned then []
      else if expected ! m = None then attempts ! m else butlast (attempts ! m))"

text \<open>
  A run of ingestion steps from \<open>w\<close> with outcome \<open>r\<close> has made exactly these calls; when
  it stopped at an item that has an entry, the store had refused the vector of that item
  for its dimension.
\<close>
definition ingest_traced ::
    "world \<Rightarrow> unit result \<Rightarrow> (vector \<times> document) option list \<Rightarrow> event list list \<Rightarrow> bool" where
  "ingest_traced w r expected attempts =
     (trace (world_of r) =
        trace w @ ingest_events attempts expected
                    (length (vectorStore (world_of r)) - length (vectorStore w)) (returns r) \<and>
      (returns r \<or>
       expected ! (length (vectorStore (world_of r)) - length (vectorStore w)) = None \<or>
       (error_of r = Some StoreError \<and> vectorStore (world_of r) \<noteq> [] \<and>
        length (fst (the (expected ! (length (vectorStore (world_of r)) - length (vectorStore w)))))
          \<noteq> length (fst (hd (vectorStore (world_of r)))))))"

subsection \<open>What rendering does\<close>

text \<open>
  Rendering one search result, in the words of the specification: the events it causes
  (the metadata line; for a text the content line; for an image with a path and a content
  the write of the decoded content under the last segment of the path), and the file it
  leaves.
\<close>
definition rendered :: "env \<Rightarrow> document \<times> int \<Rightarrow> event list" where
  "rendered E item =
     Log (JSON_stringify E (metadata (fst item))) #
     (if mediaType (metadata (fst item)) = ''text''
      then [Log (''Text: '' @ template (pageContent (fst item)))]
      else if mediaType (metadata (fst item)) = ''image''
      then (case (path (metadata (fst item)), pageContent (fst item)) of
              (Some p, Some c) \<Rightarrow> [WriteFile (''output/'' @ basename p) (from_base64 c)]
            | _ \<Rightarrow> [])
      else [])"

definition written :: "document \<times> int \<Rightarrow> fs \<Rightarrow> fs" where
  "written item f =
     (if mediaType (metadata (fst item)) = ''image''
      then (case (path (metadata (fst item)), pageContent (fst item)) of
              (Some p, Some c) \<Rightarrow> AList.update (''output/'' @ basename p) (File (from_base64 c)) f
            | _ \<Rightarrow> f)
      else f)"

text \<open>
  The metadata line, in the words of JSON: the keys in the order \<open>id\<close>, \<open>mediaType\<close>,
  \<open>path\<close>, the number by its text, the strings between quotes as they are.  This is the
  line of a metadata object whose strings hold no character that JSON escapes.
\<close>
definition metadata_json :: "string \<Rightarrow> metadata \<Rightarrow> string" where
  "metadata_json number m =
     ''{\"id\":'' @ number @ '',\"mediaType\":\"'' @ mediaType m @ ''\"'' @
     (case path m of None \<Rightarrow> [] | Some p \<Rightarrow> '',\"path\":\"'' @ p @ ''\"'') @ ''}''"

text \<open>A character that JSON writes as it is: no control character, quote or backslash.\<close>
definition plain :: "char \<Rightarrow> bool" where
  "plain c = (32 \<le> (of_char c :: nat) \<and> c \<noteq> CHR 0x22 \<and> c \<noteq> CHR 0x5C)"

definition is_digit :: "char \<Rightarrow> bool" where
  "is_digit c = (48 \<le> (of_char c :: nat) \<and> (of_char c :: nat) \<le> 57)"

text \<open>The number that a string of decimal digits denotes.\<close>
definition decimal_value :: "string \<Rightarrow> nat" where
  "decimal_value s = foldl (\<lambda>a c. 10 * a + ((of_char c :: nat) - 48)) 0 s"

subsection \<open>The store handle\<close>

text \<open>The world in which the store handle is a store that was just created.\<close>
definition created :: "fs \<Rightarrow> world" where
  "created f = \<lparr>disk = f, vectorStore = [], trace = [Exists vectorStorePath]\<rparr>"

text \<open>The world in which the store handle is the store \<open>s\<close> that was just loaded.\<close>
definition loaded :: "fs \<Rightarrow> store \<Rightarrow> world" where
  "loaded f s =
     \<lparr>disk = f, vectorStore = s, trace = [Exists vectorStorePath, Load vectorStorePath]\<rparr>"

subsection \<open>Invariants\<close>

text \<open>The metadata invariant of the specification.\<close>
definition metadata_invariant :: "metadata \<Rightarrow> bool" where
  "metadata_invariant m =
     ((mediaType m = ''text'' \<and> path m = None) \<or> (mediaType m = ''image'' \<and> path m \<noteq> None))"


section \<open>Sample worlds\<close>

text \<open>
  An embedder that never fails: texts lie on one axis by their length, images far from
  them by their length and first byte.  A number outside the safe integers is printed
  as \<^verbatim>\<open>1e+21\<close>.
\<close>
definition far_env :: env where
  "far_env =
     \<lparr>embedImageQuery = (\<lambda>img. Inr [int (length img), 1000 + (case img of [] \<Rightarrow> 0 | b # bs \<Rightarrow> uint b)]),
      embedQuery = (\<lambda>text. Inr [int (length text), 0]),
      largeNumber = (\<lambda>i. ''1e+21'')\<rparr>"


text \<open>A working directory before the first run: the six images and an empty output directory.\<close>
definition fresh_disk :: fs where
  "fresh_disk =
     [(''images'', Directory),
      (''images/dog.jpeg'', File [1, 2, 3]),
      (''images/cat.jpg'', File [4, 5]),
      (''images/parrot.jpg'', File [6]),
      (''images/iphone.jpeg'', File [7, 8, 9, 10]),
      (''images/steve.jpeg'', File []),
      (''images/airpod.jpeg'', File [255, 254, 253]),
      (''output'', Directory)]"

definition fresh_world :: world where
  "fresh_world = \<lparr>disk = fresh_disk, vectorStore = [], trace = []\<rparr>"

text \<open>A working directory before the first run in which no output directory was made.\<close>
definition unprepared_disk :: fs where
  "unprepared_disk =
     [(''images'', Directory),
      (''images/dog.jpeg'', File [1, 2, 3]),
      (''images/cat.jpg'', File [4, 5]),
      (''images/parrot.jpg'', File [6]),
      (''images/iphone.jpeg'', File [7, 8, 9, 10]),
      (''images/steve.jpeg'', File []),
      (''images/airpod.jpeg'', File [255, 254, 253])]"

text \<open>A working directory in which the third image is missing.\<close>
definition parrot_missing :: world where
  "parrot_missing =
     \<lparr>disk = [(''images/dog.jpeg'', File [1, 2, 3]), (''images/cat.jpg'', File [4, 5]),
              (''output'', Directory)],
      vectorStore = [], trace = []\<rparr>"

text \<open>An output directory that holds a file, a subdirectory and a file below it.\<close>
definition nested_output :: world where
  "nested_output =
     \<lparr>disk = [(''output'', Directory), (''output/a.png'', File [1]),
              (''output/sub'', Directory), (''output/sub/x'', File [2])],
      vectorStore = [], trace = []\<rparr>"

text \<open>An output directory that holds two files.\<close>
definition flat_output :: world where
  "flat_output =
     \<lparr>disk = [(''output'', Directory), (''output/a.png'', File [1]),
              (''images/dog.jpeg'', File [7]), (''output/b.png'', File [2, 3])],
      vectorStore = [], trace = []\<rparr>"

text \<open>A working directory without an output directory.\<close>
definition no_output :: world where
  "no_output = \<lparr>disk = [(''images/dog.jpeg'', File [1, 2, 3])], vectorStore = [], trace = []\<rparr>"

text \<open>A working directory that holds a persisted store of one text.\<close>
definition stored_disk :: fs where
  "stored_disk =
     [(''vector_store'',
        StoreDir [([30, 0], \<lparr>pageContent = Some ''Dogs are domesticated mammals.'',
                             metadata = \<lparr>id_md = 6, mediaType = ''text'', path = None\<rparr>\<rparr>)]),
      (''output'', Directory)]"

text \<open>The store after the first ingestion, with a file left in the output directory.\<close>
definition seeded_world :: world where
  "seeded_world =
     (world_of (addItemsToVectorStore far_env fresh_world))
       \<lparr>disk := (''output/old.png'', File [9]) # fresh_disk, trace := []\<rparr>"


text \<open>Two search results: the first image of the catalog and its first text.\<close>
definition sample_results :: "(document \<times> int) list" where
  "sample_results =
     [(\<lparr>pageContent = Some (toString_base64 [1, 2, 3]),
        metadata = \<lparr>id_md = 0, mediaType = ''image'', path = Some ''images/dog.jpeg''\<rparr>\<rparr>, 0),
      (\<lparr>pageContent = Some ''Dogs are domesticated mammals.'',
        metadata = \<lparr>id_md = 6, mediaType = ''text'', path = None\<rparr>\<rparr>, 529)]"

section \<open>Properties\<close>

lemma Document_simps [simp]:
  "metadata (Document c m) = m"
  "pageContent (Document c m) = (if c = [] then None else Some c)"
  by (simp_all add: Document_def)

lemma template_simps [simp]: "template None = ''undefined''" "template (Some s) = s"
  by (simp_all add: template_def)

subsection \<open>Base64 decoding inverts encoding\<close>

lemma b64_value_char: "n < 64 \<Longrightarrow> b64_value (b64_char n) = Some n"
  by (auto simp: b64_value_def b64_char_def Let_def)

lemma b64_char_not_pad: "n < 64 \<Longrightarrow> b64_char n \<noteq> CHR ''=''"
proof
  assume "n < 64" "b64_char n = CHR ''=''"
  then have "b64_value (CHR ''='') = Some n" using b64_value_char by metis
  then show False by (simp add: b64_value_def)
qed

lemma byte_bound: "unat (a :: byte) < 256"
  using unsigned_less[of a, where 'a=nat] by simp

lemma recombine: "(n::nat) div 262144 * 262144 + (n div 4096 mod 64) * 4096 + (n div 64 mod 64) * 64 + n mod 64 = n"
proof -
  define m where "m = n div 64"
  define k where "k = m div 64"
  define j where "j = k div 64"
  have a: "n div 4096 = k" unfolding k_def m_def by (simp add: div_mult2_eq[symmetric])
  have b: "n div 262144 = j" unfolding j_def k_def m_def by (simp add: div_mult2_eq[symmetric])
  have e1: "n = m * 64 + n mod 64" unfolding m_def by simp
  have e2: "m = k * 64 + m mod 64" unfolding k_def by simp
  have e3: "k = j * 64 + k mod 64" unfolding j_def by simp
  have "j * 262144 + (k mod 64) * 4096 + (m mod 64) * 64 + n mod 64 = ((j * 64 + k mod 64) * 64 + m mod 64) * 64 + n mod 64"
    by (simp add: algebra_simps)
  also have "\<dots> = n" using e1 e2 e3 by simp
  finally show ?thesis unfolding a b m_def[symmetric] .
qed

lemma pack_lt: 
  assumes "a < 256" "b < 256" "c < (256::nat)"
  shows "a * 65536 + b * 256 + c < 16777216"
  using assms by simp

lemma top_lt: "n < 16777216 \<Longrightarrow> (n::nat) div 262144 < 64"
  by (simp add: less_mult_imp_div_less)

lemma unpack3: 
  assumes "a < 256" "b < 256" "c < (256::nat)"
  shows "(a * 65536 + b * 256 + c) div 65536 = a" and "(a * 65536 + b * 256 + c) div 256 mod 256 = b" and "(a * 65536 + b * 256 + c) mod 256 = c"
proof -
  show "(a * 65536 + b * 256 + c) div 65536 = a" using assms by simp
  have "(a * 65536 + b * 256 + c) div 256 = a * 256 + b" using assms by simp
  then show "(a * 65536 + b * 256 + c) div 256 mod 256 = b" using assms by simp
  have "a * 65536 + b * 256 + c = (a * 256 + b) * 256 + c" by simp
  then show "(a * 65536 + b * 256 + c) mod 256 = c" using assms by (metis mod_less mod_mult_self3)
qed

lemma sextets_lt: "s \<in> set (sextets b) \<Longrightarrow> s < 64"
proof (induction b rule: sextets.induct)
  case (1 a b c rest)
  have "(unat a * 65536 + unat b * 256 + unat c) div 262144 < 64"
    using top_lt[OF pack_lt[OF byte_bound[of a] byte_bound[of b] byte_bound[of c]]] .
  then show ?case using 1 by (auto simp: Let_def)
next
  case (2 a b)
  have "(unat a * 65536 + unat b * 256 + 0) div 262144 < 64"
    using top_lt[OF pack_lt[OF byte_bound[of a] byte_bound[of b], of 0]] by simp
  then show ?case using 2 by (auto simp: Let_def)
next
  case (3 a)
  have "(unat a * 65536 + 0 * 256 + 0) div 262144 < 64"
    using top_lt[OF pack_lt[OF byte_bound[of a], of 0 0]] by simp
  then show ?case using 3 by (auto simp: Let_def)
qed simp

lemma group3:
  "bytes_of_sextets ((unat a * 65536 + unat b * 256 + unat c) div 262144 #
      (unat a * 65536 + unat b * 256 + unat c) div 4096 mod 64 #
      (unat a * 65536 + unat b * 256 + unat c) div 64 mod 64 #
      (unat a * 65536 + unat b * 256 + unat c) mod 64 # rest) = a # b # c # bytes_of_sextets rest"
  using unpack3[OF byte_bound[of a] byte_bound[of b] byte_bound[of c]]
  by (simp add: Let_def recombine)

lemma group2:
  "bytes_of_sextets [(unat a * 65536 + unat b * 256) div 262144,
      (unat a * 65536 + unat b * 256) div 4096 mod 64,
      (unat a * 65536 + unat b * 256) div 64 mod 64] = [a, b]"
proof -
  define n where "n = unat a * 65536 + unat b * 256"
  have "n = 64 * (unat a * 1024 + unat b * 4)" by (simp add: n_def)
  then have z: "n mod 64 = 0" by simp
  have "n div 262144 * 262144 + n div 4096 mod 64 * 4096 + n div 64 mod 64 * 64 = n"
    using recombine[of n] z by simp
  moreover have "n div 65536 = unat a" "n div 256 mod 256 = unat b"
    using unpack3[OF byte_bound[of a] byte_bound[of b], of 0] by (simp_all add: n_def)
  ultimately show ?thesis by (simp add: Let_def n_def[symmetric])
qed

lemma group1:
  "bytes_of_sextets [(unat a * 65536) div 262144, (unat a * 65536) div 4096 mod 64] = [a]"
proof -
  define n where "n = unat a * 65536"
  have "n = 4096 * (unat a * 16)" by (simp add: n_def)
  then have z: "n mod 4096 = 0" by simp
  have "n = n div 4096 * 4096 + n mod 4096" by simp
  also have "n div 4096 = n div 4096 div 64 * 64 + n div 4096 mod 64" by simp
  also have "n div 4096 div 64 = n div 262144" by (simp add: div_mult2_eq[symmetric])
  finally have "n div 262144 * 262144 + n div 4096 mod 64 * 4096 = n"
    using z by (simp add: algebra_simps)
  moreover have "n div 65536 = unat a" by (simp add: n_def)
  ultimately show ?thesis by (simp add: Let_def n_def[symmetric])
qed

lemma bytes_of_sextets_inv: "bytes_of_sextets (sextets b) = b"
proof (induction b rule: sextets.induct)
  case (1 a b c rest)
  then show ?case using group3[of a b c "sextets rest"] by (simp add: Let_def)
next
  case (2 a b)
  then show ?case using group2[of a b] by (simp add: Let_def)
next
  case (3 a)
  then show ?case using group1[of a] by (simp add: Let_def)
qed simp

lemma map_filter_b64: "\<forall>s\<in>set xs. s < 64 \<Longrightarrow> List.map_filter b64_value (map b64_char xs) = xs"
  by (induction xs) (simp_all add: List.map_filter_simps b64_value_char)

lemma takeWhile_encoded:
  "takeWhile (\<lambda>c. c \<noteq> CHR ''='') (toString_base64 b) = map b64_char (sextets b)"
proof -
  have "\<forall>c\<in>set (map b64_char (sextets b)). c \<noteq> CHR ''=''"
    using sextets_lt b64_char_not_pad by auto
  then show ?thesis
    unfolding toString_base64_def padding_def
    by (cases "(3 - length b mod 3) mod 3") (simp_all add: takeWhile_tail)
qed

lemma toString_base64_Nil_iff [simp]: "toString_base64 b = [] \<longleftrightarrow> b = []"
  by (cases b rule: sextets.cases) (simp_all add: toString_base64_def padding_def Let_def)

lemma from_base64_toString: "from_base64 (toString_base64 b) = b"
  unfolding from_base64_def takeWhile_encoded
  using map_filter_b64[of "sextets b"] sextets_lt bytes_of_sextets_inv by auto

subsection \<open>Clearing a directory\<close>

lemma unlinkSync_Return:
  assumes "unlinkSync p w = Return u w'"
  shows "\<exists>b. map_of (disk w) p = Some (File b)"
    and "disk w' = AList.delete p (disk w)"
    and "vectorStore w' = vectorStore w"
    and "trace w' = trace w @ [Unlink p]"
  using assms
  by (auto simp: unlinkSync_def Let_def emit_def split: option.splits node.splits)

lemma unlinkSync_Throw:
  assumes "unlinkSync p w = Throw e w'"
  shows "\<nexists>b. map_of (disk w) p = Some (File b)"
    and "disk w' = disk w"
    and "vectorStore w' = vectorStore w"
    and "trace w' = trace w @ [Unlink p]"
    and "map_of (disk w) p \<noteq> None \<Longrightarrow> e = EISDIR p"
  using assms
  by (auto simp: unlinkSync_def Let_def emit_def split: option.splits node.splits)

lemma unlinkSync_File:
  "map_of (disk w) p = Some (File b) \<Longrightarrow>
   unlinkSync p w = Return () (emit (Unlink p) w\<lparr>disk := AList.delete p (disk w)\<rparr>)"
  by (simp add: unlinkSync_def Let_def)

lemma map_of_delete_key: "map_of (AList.delete k al) k' = (if k' = k then None else map_of al k')"
  by (simp add: delete_conv')

lemma path_join_inj: "path_join d a = path_join d b \<longleftrightarrow> a = b"
  by (simp add: path_join_def)

text \<open>Only listed regular files are ever removed.\<close>
lemma forEach_unlink_removes:
  "map_of (disk (world_of (forEach_unlink d names w))) k = map_of (disk w) k \<or>
   (map_of (disk (world_of (forEach_unlink d names w))) k = None \<and>
    (\<exists>b. map_of (disk w) k = Some (File b)) \<and> (\<exists>n\<in>set names. k = path_join d n))"
proof (induction names arbitrary: w)
  case Nil
  show ?case by simp
next
  case (Cons n names)
  show ?case
  proof (cases "unlinkSync (path_join d n) w")
    case (Throw e w1)
    then show ?thesis using unlinkSync_Throw(2)[OF Throw] by simp
  next
    case (Return u w1)
    note un = unlinkSync_Return[OF Return]
    from Cons[of w1] show ?thesis
      using un(1,2) Return by (auto simp: map_of_delete_key split: if_splits)
  qed
qed

text \<open>A \<^verbatim>\<open>forEach\<close> that ran to its end found a regular file under every name.\<close>
lemma forEach_unlink_Return_files:
  "forEach_unlink d names w = Return u w' \<Longrightarrow> n \<in> set names \<Longrightarrow>
   \<exists>b. map_of (disk w) (path_join d n) = Some (File b)"
proof (induction names arbitrary: w)
  case Nil
  then show ?case by simp
next
  case (Cons x names)
  from Cons.prems(1) obtain u1 w1 where r: "unlinkSync (path_join d x) w = Return u1 w1"
    and rest: "forEach_unlink d names w1 = Return u w'"
    by (cases "unlinkSync (path_join d x) w") auto
  note un = unlinkSync_Return[OF r]
  show ?case
  proof (cases "n = x")
    case True
    then show ?thesis using un(1) by simp
  next
    case False
    then have "n \<in> set names" using Cons.prems(2) by simp
    from Cons.IH[OF rest this] show ?thesis
      using un(2) by (auto simp: map_of_delete_key split: if_splits)
  qed
qed

lemma forEach_unlink_Return_disk:
  "forEach_unlink d names w = Return u w' \<Longrightarrow>
   disk w' = filter (\<lambda>kv. fst kv \<notin> path_join d ` set names) (disk w)"
proof (induction names arbitrary: w)
  case Nil
  then show ?case by simp
next
  case (Cons x names)
  from Cons.prems(1) obtain u1 w1 where r: "unlinkSync (path_join d x) w = Return u1 w1"
    and rest: "forEach_unlink d names w1 = Return u w'"
    by (cases "unlinkSync (path_join d x) w") auto
  note un = unlinkSync_Return[OF r]
  have "disk w' = filter (\<lambda>kv. fst kv \<notin> path_join d ` set names) (AList.delete (path_join d x) (disk w))"
    using Cons.IH[OF rest] un(2) by simp
  also have "\<dots> = filter (\<lambda>kv. fst kv \<notin> path_join d ` set (x # names)) (disk w)"
    unfolding AList.delete_eq filter_filter by (rule filter_cong) auto
  finally show ?case .
qed

lemma forEach_unlink_frame:
  "vectorStore (world_of (forEach_unlink d names w)) = vectorStore w"
proof (induction names arbitrary: w)
  case Nil
  show ?case by simp
next
  case (Cons n names)
  show ?case
  proof (cases "unlinkSync (path_join d n) w")
    case (Throw e w1)
    then show ?thesis using unlinkSync_Throw(3)[OF Throw] by simp
  next
    case (Return u w1)
    then show ?thesis using unlinkSync_Return(3)[OF Return] Cons[of w1] by simp
  qed
qed

text \<open>The events of the \<^verbatim>\<open>forEach\<close>: one \<^verbatim>\<open>unlinkSync\<close> per name, in order, up to the first failure.\<close>
lemma forEach_unlink_trace:
  "\<exists>j\<le>length names.
     trace (world_of (forEach_unlink d names w)) =
       trace w @ map (\<lambda>n. Unlink (path_join d n)) (take j names) \<and>
     (returns (forEach_unlink d names w) \<longrightarrow> j = length names)"
proof (induction names arbitrary: w)
  case Nil
  show ?case by simp
next
  case (Cons n names)
  show ?case
  proof (cases "unlinkSync (path_join d n) w")
    case (Throw e w1)
    have "trace (world_of (forEach_unlink d (n # names) w)) =
            trace w @ map (\<lambda>n. Unlink (path_join d n)) (take 1 (n # names))"
      using unlinkSync_Throw(4)[OF Throw] Throw by simp
    moreover have "\<not> returns (forEach_unlink d (n # names) w)" using Throw by simp
    ultimately show ?thesis by (intro exI[of _ 1]) simp
  next
    case (Return u w1)
    from Cons[of w1] obtain j where j: "j \<le> length names"
      "trace (world_of (forEach_unlink d names w1)) =
         trace w1 @ map (\<lambda>n. Unlink (path_join d n)) (take j names)"
      "returns (forEach_unlink d names w1) \<longrightarrow> j = length names" by blast
    show ?thesis
      using j unlinkSync_Return(4)[OF Return] Return
      by (intro exI[of _ "Suc j"]) simp
  qed
qed

lemma forEach_unlink_files_Return:
  "distinct names \<Longrightarrow> \<forall>n\<in>set names. \<exists>b. map_of (disk w) (path_join d n) = Some (File b) \<Longrightarrow>
   returns (forEach_unlink d names w)"
proof (induction names arbitrary: w)
  case Nil
  show ?case by simp
next
  case (Cons x names)
  from Cons.prems(2) obtain b where b: "map_of (disk w) (path_join d x) = Some (File b)" by auto
  let ?w1 = "emit (Unlink (path_join d x)) w\<lparr>disk := AList.delete (path_join d x) (disk w)\<rparr>"
  have "\<forall>n\<in>set names. \<exists>b. map_of (disk ?w1) (path_join d n) = Some (File b)"
    using Cons.prems by (auto simp: map_of_delete_key path_join_inj)
  then have "returns (forEach_unlink d names ?w1)" using Cons.IH Cons.prems(1) by simp
  then show ?case using unlinkSync_File[OF b] by simp
qed

lemma child_name_Some: "child_name d k = Some n \<Longrightarrow> k = path_join d n \<and> valid_name n"
proof -
  assume a: "child_name d k = Some n"
  then have t: "take (length d + 1) k = d @ ''/''" and n: "n = drop (length d + 1) k" and v: "valid_name n"
    by (auto simp: child_name_def Let_def split: if_splits)
  have "k = take (length d + 1) k @ drop (length d + 1) k" by simp
  then have "k = path_join d n" unfolding t n[symmetric] path_join_def by simp
  then show ?thesis using v by simp
qed

lemma child_name_join: "valid_name n \<Longrightarrow> child_name d (path_join d n) = Some n"
  by (simp add: child_name_def path_join_def Let_def)

lemma set_map_filter_iff: "y \<in> set (List.map_filter g xs) \<longleftrightarrow> (\<exists>x\<in>set xs. g x = Some y)"
  by (induction xs) (auto split: option.splits)

lemma entries_iff:
  "n \<in> set (entries f d) \<longleftrightarrow> valid_name n \<and> path_join d n \<in> fst ` set f"
proof
  assume "n \<in> set (entries f d)"
  then obtain k where "k \<in> fst ` set f" "child_name d k = Some n"
    by (auto simp: entries_def set_map_filter_iff)
  then show "valid_name n \<and> path_join d n \<in> fst ` set f"
    using child_name_Some[of d k n] by simp
next
  assume "valid_name n \<and> path_join d n \<in> fst ` set f"
  then have "path_join d n \<in> set (map fst f)" and "child_name d (path_join d n) = Some n"
    using child_name_join[of n d] by simp_all
  then have "\<exists>x\<in>set (map fst f). child_name d x = Some n" by blast
  then show "n \<in> set (entries f d)"
    unfolding entries_def set_sort set_remdups set_map_filter_iff .
qed

lemma entries_present: "n \<in> set (entries f d) \<Longrightarrow> map_of f (path_join d n) \<noteq> None"
  by (simp add: entries_iff map_of_eq_None_iff)

lemma distinct_entries: "distinct (entries f d)"
  by (simp add: entries_def)

lemma not_self_child: "d \<noteq> path_join d n"
  by (simp add: path_join_def)

lemma readdirSync_dir:
  "map_of (disk w) d = Some m \<Longrightarrow> is_dir m \<Longrightarrow>
   readdirSync d w = Return (entries (disk w) d) (emit (Readdir d) w)"
  by (cases m) (simp_all add: readdirSync_def is_dir_def Let_def)

lemma readdirSync_Return:
  "readdirSync d w = Return names w1 \<Longrightarrow>
   names = entries (disk w) d \<and> w1 = emit (Readdir d) w \<and> (\<exists>m. map_of (disk w) d = Some m \<and> is_dir m)"
  by (auto simp: readdirSync_def is_dir_def Let_def split: option.splits node.splits)

lemma readdirSync_Throw:
  "readdirSync d w = Throw e w1 \<Longrightarrow> w1 = emit (Readdir d) w \<and> (\<nexists>m. map_of (disk w) d = Some m \<and> is_dir m)"
  by (auto simp: readdirSync_def is_dir_def Let_def split: option.splits node.splits)

lemma readdirSync_missing:
  "map_of (disk w) d = None \<Longrightarrow> readdirSync d w = Throw (ENOENT d) (emit (Readdir d) w)"
  by (simp add: readdirSync_def Let_def)

lemma emit_simps [simp]:
  "disk (emit e w) = disk w" "vectorStore (emit e w) = vectorStore w"
  "trace (emit e w) = trace w @ [e]"
  by (simp_all add: emit_def)

lemma clearDirectory_dir:
  "map_of (disk w) d = Some m \<Longrightarrow> is_dir m \<Longrightarrow>
   clearDirectory d w = forEach_unlink d (entries (disk w) d) (emit (Readdir d) w)"
  by (simp add: clearDirectory_def readdirSync_dir)

lemma clearDirectory_not_dir:
  "\<nexists>m. map_of (disk w) d = Some m \<and> is_dir m \<Longrightarrow>
   \<exists>e. clearDirectory d w = Throw e (emit (Readdir d) w)"
  by (cases "readdirSync d w") (auto simp: clearDirectory_def dest: readdirSync_Return readdirSync_Throw)

lemma clearDirectory_cases:
  obtains (listed) m where "map_of (disk w) d = Some m" "is_dir m"
      "clearDirectory d w = forEach_unlink d (entries (disk w) d) (emit (Readdir d) w)"
    | (refused) e where "\<nexists>m. map_of (disk w) d = Some m \<and> is_dir m"
      "clearDirectory d w = Throw e (emit (Readdir d) w)"
  using clearDirectory_dir clearDirectory_not_dir by meson

lemma clearDirectory_removes:
  "map_of (disk (world_of (clearDirectory d w))) k = map_of (disk w) k \<or>
   (map_of (disk (world_of (clearDirectory d w))) k = None \<and>
    (\<exists>b. map_of (disk w) k = Some (File b)) \<and> (\<exists>n\<in>set (entries (disk w) d). k = path_join d n))"
proof (cases rule: clearDirectory_cases[of w d])
  case (listed m)
  show ?thesis
    using forEach_unlink_removes[of d "entries (disk w) d" "emit (Readdir d) w" k]
    unfolding listed(3) by simp
next
  case (refused e)
  then show ?thesis by simp
qed

lemma clearDirectory_frame: "vectorStore (world_of (clearDirectory d w)) = vectorStore w"
proof (cases rule: clearDirectory_cases[of w d])
  case (listed m)
  show ?thesis unfolding listed(3) by (simp add: forEach_unlink_frame)
next
  case (refused e)
  then show ?thesis by simp
qed

lemma clearDirectory_returns_iff:
  "returns (clearDirectory d w) \<longleftrightarrow>
     (\<exists>m. map_of (disk w) d = Some m \<and> is_dir m) \<and>
     (\<forall>n\<in>set (entries (disk w) d). \<exists>b. map_of (disk w) (path_join d n) = Some (File b))"
proof (cases rule: clearDirectory_cases[of w d])
  case (listed m)
  let ?r = "forEach_unlink d (entries (disk w) d) (emit (Readdir d) w)"
  show ?thesis
  proof
    assume "returns (clearDirectory d w)"
    then obtain u w' where r: "?r = Return u w'" unfolding listed(3) by (cases ?r) auto
    show "(\<exists>m. map_of (disk w) d = Some m \<and> is_dir m) \<and>
          (\<forall>n\<in>set (entries (disk w) d). \<exists>b. map_of (disk w) (path_join d n) = Some (File b))"
      using forEach_unlink_Return_files[OF r] listed(1,2) by auto
  next
    assume "(\<exists>m. map_of (disk w) d = Some m \<and> is_dir m) \<and>
          (\<forall>n\<in>set (entries (disk w) d). \<exists>b. map_of (disk w) (path_join d n) = Some (File b))"
    then show "returns (clearDirectory d w)"
      unfolding listed(3)
      using forEach_unlink_files_Return[OF distinct_entries, of "disk w" d "emit (Readdir d) w" d]
      by simp
  qed
next
  case (refused e)
  then show ?thesis by auto
qed

lemma entries_filter_removed:
  "entries (filter (\<lambda>kv. fst kv \<notin> path_join d ` set (entries f d)) f) d = []"
proof -
  have "n \<notin> set (entries (filter (\<lambda>kv. fst kv \<notin> path_join d ` set (entries f d)) f) d)" for n
  proof
    assume "n \<in> set (entries (filter (\<lambda>kv. fst kv \<notin> path_join d ` set (entries f d)) f) d)"
    then have v: "valid_name n" and
      k: "path_join d n \<in> fst ` set (filter (\<lambda>kv. fst kv \<notin> path_join d ` set (entries f d)) f)"
      by (simp_all add: entries_iff)
    from k have "path_join d n \<in> fst ` set f" and "path_join d n \<notin> path_join d ` set (entries f d)"
      by auto
    then show False using v by (auto simp: entries_iff)
  qed
  then show ?thesis by (cases "entries (filter (\<lambda>kv. fst kv \<notin> path_join d ` set (entries f d)) f) d") auto
qed

lemma clearDirectory_Return_empty:
  assumes "clearDirectory d w = Return u w'"
  shows "entries (disk w') d = []"
proof (cases rule: clearDirectory_cases[of w d])
  case (listed m)
  have "disk w' = filter (\<lambda>kv. fst kv \<notin> path_join d ` set (entries (disk w) d)) (disk w)"
    using forEach_unlink_Return_disk[of d "entries (disk w) d" "emit (Readdir d) w" u w'] assms
    unfolding listed(3) by simp
  then show ?thesis by (simp add: entries_filter_removed)
next
  case (refused e)
  then show ?thesis using assms by simp
qed

lemma clearDirectory_trace:
  "\<exists>j\<le>length (entries (disk w) d).
     trace (world_of (clearDirectory d w)) =
       trace w @ Readdir d # map (\<lambda>n. Unlink (path_join d n)) (take j (entries (disk w) d)) \<and>
     (returns (clearDirectory d w) \<longrightarrow> j = length (entries (disk w) d))"
proof (cases rule: clearDirectory_cases[of w d])
  case (listed m)
  show ?thesis
    using forEach_unlink_trace[of "entries (disk w) d" d "emit (Readdir d) w"]
    unfolding listed(3) by simp
next
  case (refused e)
  then show ?thesis by (intro exI[of _ 0]) simp
qed

lemma query_needs_clear:
  "\<not> returns (clearDirectory ''output'' w) \<Longrightarrow>
   textSimilaritySearch E t k w = Throw e' w' \<longleftrightarrow> clearDirectory ''output'' w = Throw e' w'"
  "\<not> returns (clearDirectory ''output'' w) \<Longrightarrow>
   imageSimilaritySearch E p k w = Throw e' w' \<longleftrightarrow> clearDirectory ''output'' w = Throw e' w'"
  by (cases "clearDirectory ''output'' w"; simp add: textSimilaritySearch_def imageSimilaritySearch_def)+

lemma query_not_returns:
  assumes "\<not> returns (clearDirectory ''output'' w)"
  shows "\<not> returns (textSimilaritySearch E t k w)" "\<not> returns (imageSimilaritySearch E p k w)"
  using assms
  by (cases "clearDirectory ''output'' w"; simp add: textSimilaritySearch_def imageSimilaritySearch_def)+

text \<open>
  Claim C9.  \<^verbatim>\<open>clearDirectory\<close> removes nothing but regular files that are direct
  entries of the directory; it returns exactly when the directory exists and every entry
  is a regular file, and then no entry is left; an entry that is a directory makes it
  throw, and with it either search.
\<close>
theorem clearDirectory_direct_entries_only:
  "(\<forall>k. map_of (disk (world_of (clearDirectory d w))) k = map_of (disk w) k \<or>
        (map_of (disk (world_of (clearDirectory d w))) k = None \<and>
         (\<exists>b. map_of (disk w) k = Some (File b)) \<and>
         (\<exists>n\<in>set (entries (disk w) d). k = path_join d n))) \<and>
   (returns (clearDirectory d w) \<longleftrightarrow>
      (\<exists>m. map_of (disk w) d = Some m \<and> is_dir m) \<and>
      (\<forall>n\<in>set (entries (disk w) d). \<exists>b. map_of (disk w) (path_join d n) = Some (File b))) \<and>
   (returns (clearDirectory d w) \<longrightarrow> entries (disk (world_of (clearDirectory d w))) d = []) \<and>
   ((\<exists>n\<in>set (entries (disk w) ''output'').
        \<exists>m. map_of (disk w) (path_join ''output'' n) = Some m \<and> is_dir m) \<longrightarrow>
      \<not> returns (clearDirectory ''output'' w) \<and>
      \<not> returns (textSimilaritySearch E t k1 w) \<and>
      \<not> returns (imageSimilaritySearch E p k2 w))"
proof (intro conjI allI impI)
  fix k
  show "map_of (disk (world_of (clearDirectory d w))) k = map_of (disk w) k \<or>
        (map_of (disk (world_of (clearDirectory d w))) k = None \<and>
         (\<exists>b. map_of (disk w) k = Some (File b)) \<and>
         (\<exists>n\<in>set (entries (disk w) d). k = path_join d n))"
    by (rule clearDirectory_removes)
next
  show "returns (clearDirectory d w) \<longleftrightarrow>
      (\<exists>m. map_of (disk w) d = Some m \<and> is_dir m) \<and>
      (\<forall>n\<in>set (entries (disk w) d). \<exists>b. map_of (disk w) (path_join d n) = Some (File b))"
    by (rule clearDirectory_returns_iff)
next
  assume "returns (clearDirectory d w)"
  then obtain u w' where "clearDirectory d w = Return u w'" by (cases "clearDirectory d w") auto
  then show "entries (disk (world_of (clearDirectory d w))) d = []"
    using clearDirectory_Return_empty by fastforce
next
  assume a: "\<exists>n\<in>set (entries (disk w) ''output'').
        \<exists>m. map_of (disk w) (path_join ''output'' n) = Some m \<and> is_dir m"
  then show c: "\<not> returns (clearDirectory ''output'' w)"
    unfolding clearDirectory_returns_iff by (fastforce simp: is_dir_def)
  show "\<not> returns (textSimilaritySearch E t k1 w)" using query_not_returns(1)[OF c] .
  show "\<not> returns (imageSimilaritySearch E p k2 w)" using query_not_returns(2)[OF c] .
qed

lemma entries_nested: "entries (disk nested_output) ''output'' = [''a.png'', ''sub'']"
  by (simp add: nested_output_def entries_def child_name_def valid_name_def Let_def)

lemma entries_flat: "entries (disk flat_output) ''output'' = [''a.png'', ''b.png'']"
  by (simp add: flat_output_def entries_def child_name_def valid_name_def Let_def)

theorem clearDirectory_direct_entries_only_witness:
  "(\<exists>n\<in>set (entries (disk nested_output) ''output'').
        \<exists>m. map_of (disk nested_output) (path_join ''output'' n) = Some m \<and> is_dir m) \<and>
   \<not> returns (textSimilaritySearch far_env ''Mammals'' 1 nested_output) \<and>
   map_of (disk (world_of (clearDirectory ''output'' nested_output))) ''output/sub/x'' = Some (File [2]) \<and>
   entries (disk flat_output) ''output'' = [''a.png'', ''b.png''] \<and>
   map_of (disk flat_output) (path_join ''output'' ''a.png'') = Some (File [1]) \<and>
   map_of (disk flat_output) (path_join ''output'' ''b.png'') = Some (File [2, 3]) \<and>
   returns (clearDirectory ''output'' flat_output) \<and>
   entries (disk (world_of (clearDirectory ''output'' flat_output))) ''output'' = []"
proof -
  note nested = clearDirectory_direct_entries_only
    [of "''output''" nested_output far_env "''Mammals''" 1 "''images/dog.jpeg''" 1]
  note flat = clearDirectory_direct_entries_only
    [of "''output''" flat_output far_env "''Mammals''" 1 "''images/dog.jpeg''" 1]
  have h1: "\<exists>n\<in>set (entries (disk nested_output) ''output'').
        \<exists>m. map_of (disk nested_output) (path_join ''output'' n) = Some m \<and> is_dir m"
    unfolding entries_nested by (simp add: nested_output_def path_join_def is_dir_def)
  have c1: "\<not> returns (textSimilaritySearch far_env ''Mammals'' 1 nested_output)"
    using nested h1 by blast
  have "map_of (disk nested_output) ''output/sub/x'' = Some (File [2])"
    by (simp add: nested_output_def)
  moreover have "\<not> (\<exists>n\<in>set (entries (disk nested_output) ''output''). ''output/sub/x'' = path_join ''output'' n)"
    unfolding entries_nested by (simp add: path_join_def)
  ultimately have c2: "map_of (disk (world_of (clearDirectory ''output'' nested_output))) ''output/sub/x'' = Some (File [2])"
    using nested by metis
  have h2: "\<forall>n\<in>set (entries (disk flat_output) ''output'').
        \<exists>b. map_of (disk flat_output) (path_join ''output'' n) = Some (File b)"
    unfolding entries_flat by (simp add: flat_output_def path_join_def)
  have h3: "\<exists>m. map_of (disk flat_output) ''output'' = Some m \<and> is_dir m"
    by (simp add: flat_output_def is_dir_def)
  have c3: "returns (clearDirectory ''output'' flat_output)"
    using flat h2 h3 by blast
  then have c4: "entries (disk (world_of (clearDirectory ''output'' flat_output))) ''output'' = []"
    using flat by blast
  have h4: "map_of (disk flat_output) (path_join ''output'' ''a.png'') = Some (File [1])"
    "map_of (disk flat_output) (path_join ''output'' ''b.png'') = Some (File [2, 3])"
    by (simp_all add: flat_output_def path_join_def)
  show ?thesis using h1 c1 c2 entries_flat h4 c3 c4 by blast
qed

subsection \<open>Ingestion steps\<close>

lemma addVectors_cases:
  "addVectors v d w = Return () (emit (AddVectors v d) w\<lparr>vectorStore := vectorStore w @ [(v, d)]\<rparr>) \<or>
   addVectors v d w = Throw StoreError (emit (AddVectors v d) w)"
  by (auto simp: addVectors_def Let_def split: list.splits)

lemma addImage_summary: "ingest_summary w (addImage E p i w) [image_entry E (disk w) p i]"
proof (cases "map_of (disk w) p")
  case None
  then show ?thesis
    unfolding ingest_summary_def
    by (intro exI[of _ "[]"] exI[of _ "[ReadFile p]"])
       (simp add: addImage_def readFileSync_def Let_def embed_calls_def add_calls_def image_entry_def)
next
  case (Some n)
  show ?thesis
  proof (cases "\<exists>img. n = File img")
    case False
    then show ?thesis using Some
      unfolding ingest_summary_def
      by (intro exI[of _ "[]"] exI[of _ "[ReadFile p]"])
         (cases n; simp add: addImage_def readFileSync_def Let_def embed_calls_def add_calls_def
            image_entry_def)
  next
    case True
    then obtain img where n: "n = File img" by blast
    show ?thesis
    proof (cases "embedImageQuery E img")
      case (Inl e)
      then show ?thesis using Some n
        unfolding ingest_summary_def
        by (intro exI[of _ "[]"] exI[of _ "[ReadFile p, EmbedImage img]"])
           (simp add: addImage_def readFileSync_def call_embedImageQuery_def Let_def
              embed_calls_def add_calls_def image_entry_def)
    next
      case (Inr v)
      let ?d = "Document (toString_base64 img)
                  \<lparr>id_md = i, mediaType = ''image'', path = Some p\<rparr>"
      from addVectors_cases[of v ?d "emit (EmbedImage img) (emit (ReadFile p) w)"]
      show ?thesis
      proof
        assume a: "addVectors v ?d (emit (EmbedImage img) (emit (ReadFile p) w)) =
            Return () (emit (AddVectors v ?d) (emit (EmbedImage img) (emit (ReadFile p) w))
              \<lparr>vectorStore := vectorStore (emit (EmbedImage img) (emit (ReadFile p) w)) @ [(v, ?d)]\<rparr>)"
        show ?thesis using Some n Inr a
          unfolding ingest_summary_def
          by (intro exI[of _ "[(v, ?d)]"]
                exI[of _ "[ReadFile p, EmbedImage img, AddVectors v ?d, Log (''Image '' @ p @ '' added.'')]"])
             (simp add: addImage_def readFileSync_def call_embedImageQuery_def Let_def
                embed_calls_def add_calls_def image_entry_def console_log_def)
      next
        assume a: "addVectors v ?d (emit (EmbedImage img) (emit (ReadFile p) w)) =
            Throw StoreError (emit (AddVectors v ?d) (emit (EmbedImage img) (emit (ReadFile p) w)))"
        show ?thesis using Some n Inr a
          unfolding ingest_summary_def
          by (intro exI[of _ "[]"]
                exI[of _ "[ReadFile p, EmbedImage img, AddVectors v ?d]"])
             (simp add: addImage_def readFileSync_def call_embedImageQuery_def Let_def
                embed_calls_def add_calls_def image_entry_def console_log_def)
      qed
    qed
  qed
qed

lemma addText_summary: "ingest_summary w (addText E x i w) [text_entry E x i]"
proof (cases "embedQuery E x")
  case (Inl e)
  then show ?thesis
    unfolding ingest_summary_def
    by (intro exI[of _ "[]"] exI[of _ "[EmbedText x]"])
       (simp add: addText_def call_embedQuery_def Let_def
          embed_calls_def add_calls_def text_entry_def)
next
  case (Inr v)
  let ?d = "Document x \<lparr>id_md = i, mediaType = ''text'', path = None\<rparr>"
  from addVectors_cases[of v ?d "emit (EmbedText x) w"]
  show ?thesis
  proof
    assume a: "addVectors v ?d (emit (EmbedText x) w) =
        Return () (emit (AddVectors v ?d) (emit (EmbedText x) w)
          \<lparr>vectorStore := vectorStore (emit (EmbedText x) w) @ [(v, ?d)]\<rparr>)"
    show ?thesis using Inr a
      unfolding ingest_summary_def
      by (intro exI[of _ "[(v, ?d)]"]
            exI[of _ "[EmbedText x, AddVectors v ?d, Log (''Text '' @ [CHR 0x22] @ x @ [CHR 0x22] @ '' added.'')]"])
         (simp add: addText_def call_embedQuery_def Let_def
            embed_calls_def add_calls_def text_entry_def console_log_def)
  next
    assume a: "addVectors v ?d (emit (EmbedText x) w) =
        Throw StoreError (emit (AddVectors v ?d) (emit (EmbedText x) w))"
    show ?thesis using Inr a
      unfolding ingest_summary_def
      by (intro exI[of _ "[]"] exI[of _ "[EmbedText x, AddVectors v ?d]"])
         (simp add: addText_def call_embedQuery_def Let_def
            embed_calls_def add_calls_def text_entry_def console_log_def)
  qed
qed

lemma calls_append [simp]:
  "embed_calls (a @ b) = embed_calls a + embed_calls b"
  "add_calls (a @ b) = add_calls a + add_calls b"
  by (simp_all add: embed_calls_def add_calls_def)

lemma ingest_summaryD:
  assumes "ingest_summary w r expected"
  obtains new t where
    "disk (world_of r) = disk w" "vectorStore (world_of r) = vectorStore w @ new"
    "trace (world_of r) = trace w @ t"
    "length new \<le> length expected" "map Some new = take (length new) expected"
    "returns r \<longleftrightarrow> length new = length expected" "list_all ingest_event t"
    "length new \<le> embed_calls t" "embed_calls t \<le> length new + 1"
    "length new \<le> add_calls t" "add_calls t \<le> length new + 1"
    "returns r \<longrightarrow> embed_calls t = length new \<and> add_calls t = length new"
    "add_calls t = length new + 1 \<longrightarrow> error_of r = Some StoreError"
    "\<not> returns r \<longrightarrow> expected ! length new = None \<or> add_calls t = length new + 1"
  using assms unfolding ingest_summary_def by (elim exE conjE) (rule that)

lemma ingest_summaryI:
  assumes "disk (world_of r) = disk w" "vectorStore (world_of r) = vectorStore w @ new"
    "trace (world_of r) = trace w @ t"
    "length new \<le> length expected" "map Some new = take (length new) expected"
    "returns r \<longleftrightarrow> length new = length expected" "list_all ingest_event t"
    "length new \<le> embed_calls t" "embed_calls t \<le> length new + 1"
    "length new \<le> add_calls t" "add_calls t \<le> length new + 1"
    "returns r \<longrightarrow> embed_calls t = length new \<and> add_calls t = length new"
    "add_calls t = length new + 1 \<longrightarrow> error_of r = Some StoreError"
    "\<not> returns r \<longrightarrow> expected ! length new = None \<or> add_calls t = length new + 1"
  shows "ingest_summary w r expected"
  unfolding ingest_summary_def
  by (rule exI[of _ new], rule exI[of _ t]) (intro conjI assms)

lemma ingest_summary_Throw_append:
  assumes "ingest_summary w (Throw e w1) xs"
  shows "ingest_summary w (Throw e w1) (xs @ ys)"
proof -
  from assms obtain new t where h:
    "disk (world_of (Throw e w1 :: unit result)) = disk w"
    "vectorStore (world_of (Throw e w1 :: unit result)) = vectorStore w @ new"
    "trace (world_of (Throw e w1 :: unit result)) = trace w @ t"
    "length new \<le> length xs" "map Some new = take (length new) xs"
    "returns (Throw e w1 :: unit result) \<longleftrightarrow> length new = length xs" "list_all ingest_event t"
    "length new \<le> embed_calls t" "embed_calls t \<le> length new + 1"
    "length new \<le> add_calls t" "add_calls t \<le> length new + 1"
    "returns (Throw e w1 :: unit result) \<longrightarrow> embed_calls t = length new \<and> add_calls t = length new"
    "add_calls t = length new + 1 \<longrightarrow> error_of (Throw e w1 :: unit result) = Some StoreError"
    "\<not> returns (Throw e w1 :: unit result) \<longrightarrow> xs ! length new = None \<or> add_calls t = length new + 1"
    by (rule ingest_summaryD)
  have lt: "length new < length xs" using h(4,6) by simp
  have n: "(xs @ ys) ! length new = xs ! length new"
    using lt by (simp add: nth_append)
  have m: "map Some new = take (length new) (xs @ ys)" using h(5) lt by simp
  show ?thesis
  proof (rule ingest_summaryI[where new = new and t = t])
    show "returns (Throw e w1 :: unit result) \<longleftrightarrow> length new = length (xs @ ys)" using lt by simp
    show "length new \<le> length (xs @ ys)" using lt by simp
    show "\<not> returns (Throw e w1 :: unit result) \<longrightarrow>
        (xs @ ys) ! length new = None \<or> add_calls t = length new + 1"
      using h(14) unfolding n .
  qed (fact h m)+
qed

lemma ingest_summary_Return_append:
  assumes "ingest_summary w (Return u w1) xs" and "ingest_summary w1 r ys"
  shows "ingest_summary w r (xs @ ys)"
proof -
  from assms(1) obtain new1 t1 where g:
    "disk (world_of (Return u w1)) = disk w"
    "vectorStore (world_of (Return u w1)) = vectorStore w @ new1"
    "trace (world_of (Return u w1)) = trace w @ t1"
    "length new1 \<le> length xs" "map Some new1 = take (length new1) xs"
    "returns (Return u w1) \<longleftrightarrow> length new1 = length xs" "list_all ingest_event t1"
    "length new1 \<le> embed_calls t1" "embed_calls t1 \<le> length new1 + 1"
    "length new1 \<le> add_calls t1" "add_calls t1 \<le> length new1 + 1"
    "returns (Return u w1) \<longrightarrow> embed_calls t1 = length new1 \<and> add_calls t1 = length new1"
    "add_calls t1 = length new1 + 1 \<longrightarrow> error_of (Return u w1) = Some StoreError"
    "\<not> returns (Return u w1) \<longrightarrow> xs ! length new1 = None \<or> add_calls t1 = length new1 + 1"
    by (rule ingest_summaryD)
  have h1: "disk w1 = disk w" "vectorStore w1 = vectorStore w @ new1" "trace w1 = trace w @ t1"
    "length new1 = length xs" "map Some new1 = xs"
    "embed_calls t1 = length new1" "add_calls t1 = length new1"
    using g(1,2,3,5,6,12) by simp_all
  from assms(2) obtain new2 t2 where h2:
    "disk (world_of r) = disk w1" "vectorStore (world_of r) = vectorStore w1 @ new2"
    "trace (world_of r) = trace w1 @ t2"
    "length new2 \<le> length ys" "map Some new2 = take (length new2) ys"
    "returns r \<longleftrightarrow> length new2 = length ys" "list_all ingest_event t2"
    "length new2 \<le> embed_calls t2" "embed_calls t2 \<le> length new2 + 1"
    "length new2 \<le> add_calls t2" "add_calls t2 \<le> length new2 + 1"
    "returns r \<longrightarrow> embed_calls t2 = length new2 \<and> add_calls t2 = length new2"
    "add_calls t2 = length new2 + 1 \<longrightarrow> error_of r = Some StoreError"
    "\<not> returns r \<longrightarrow> ys ! length new2 = None \<or> add_calls t2 = length new2 + 1"
    by (rule ingest_summaryD)
  have n: "(xs @ ys) ! length (new1 @ new2) = ys ! length new2"
    using h1(4) by (simp add: nth_append)
  show ?thesis
  proof (rule ingest_summaryI[where new = "new1 @ new2" and t = "t1 @ t2"])
    show "disk (world_of r) = disk w" using h1(1) h2(1) by simp
    show "vectorStore (world_of r) = vectorStore w @ new1 @ new2" using h1(2) h2(2) by simp
    show "trace (world_of r) = trace w @ t1 @ t2" using h1(3) h2(3) by simp
    show "length (new1 @ new2) \<le> length (xs @ ys)" using h1(4) h2(4) by simp
    show "map Some (new1 @ new2) = take (length (new1 @ new2)) (xs @ ys)"
      using h1(4,5) h2(5) by simp
    show "returns r \<longleftrightarrow> length (new1 @ new2) = length (xs @ ys)" using h1(4) h2(6) by simp
    show "list_all ingest_event (t1 @ t2)" using g(7) h2(7) by simp
    show "length (new1 @ new2) \<le> embed_calls (t1 @ t2)" using h1(6) h2(8) by simp
    show "embed_calls (t1 @ t2) \<le> length (new1 @ new2) + 1" using h1(6) h2(9) by simp
    show "length (new1 @ new2) \<le> add_calls (t1 @ t2)" using h1(7) h2(10) by simp
    show "add_calls (t1 @ t2) \<le> length (new1 @ new2) + 1" using h1(7) h2(11) by simp
    show "returns r \<longrightarrow> embed_calls (t1 @ t2) = length (new1 @ new2) \<and>
        add_calls (t1 @ t2) = length (new1 @ new2)"
      using h1(6,7) h2(12) by simp
    show "add_calls (t1 @ t2) = length (new1 @ new2) + 1 \<longrightarrow> error_of r = Some StoreError"
      using h1(7) h2(13) by simp
    show "\<not> returns r \<longrightarrow> (xs @ ys) ! length (new1 @ new2) = None \<or>
        add_calls (t1 @ t2) = length (new1 @ new2) + 1"
      using h1(7) h2(14) unfolding n by simp
  qed
qed

lemma ingest_summary_Nil: "ingest_summary w (Return () w) []"
  unfolding ingest_summary_def
  by (intro exI[of _ "[]"]) (simp add: embed_calls_def add_calls_def)

lemma ingest_summary_step:
  assumes step: "ingest_summary w r1 [x]"
    and rest: "\<And>u w1. r1 = Return u w1 \<Longrightarrow> ingest_summary w1 (k u w1) xs"
  shows "ingest_summary w (case r1 of Throw e w' \<Rightarrow> Throw e w' | Return u w' \<Rightarrow> k u w') (x # xs)"
proof (cases r1)
  case (Return u w1)
  show ?thesis
    using ingest_summary_Return_append[of w u w1 "[x]" "k u w1" xs] step rest[OF Return] Return
    by simp
next
  case (Throw e w1)
  show ?thesis
    using ingest_summary_Throw_append[of w e w1 "[x]" xs] step Throw by simp
qed

lemma summary_disk:
  "ingest_summary w (Return u w1) xs \<Longrightarrow> disk w1 = disk w"
  by (erule ingest_summaryD) simp

lemma upt_shift: "i < n \<Longrightarrow> map g [0..<n - i] = g 0 # map (\<lambda>j. g (Suc j)) [0..<n - Suc i]"
proof -
  assume "i < n"
  then have "[0..<n - i] = 0 # map Suc [0..<n - Suc i]"
    by (metis Suc_diff_Suc map_Suc_upt upt_conv_Cons zero_less_diff)
  then show ?thesis by (simp add: comp_def)
qed

lemma images_loop_summary:
  "ingest_summary w (images_loop E imgs i imageId w)
     (map (\<lambda>j. image_entry E (disk w) (imgs ! (i + j)) (imageId + int j)) [0..<length imgs - i])"
proof (induction E imgs i imageId w rule: images_loop.induct)
  case (1 E imgs i imageId w)
  show ?case
  proof (cases "i < length imgs")
    case False
    then show ?thesis by (simp add: ingest_summary_Nil)
  next
    case True
    have rest: "ingest_summary w1 (images_loop E imgs (i + 1) (imageId + 1) w1)
        (map (\<lambda>j. image_entry E (disk w) (imgs ! (i + Suc j)) (imageId + int (Suc j)))
           [0..<length imgs - Suc i])"
      if r: "addImage E (imgs ! i) imageId w = Return u w1" for u w1
    proof -
      have d: "disk w1 = disk w"
        using addImage_summary[of w E "imgs ! i" imageId] r summary_disk by metis
      show ?thesis using "1.IH"[OF True r] d by (simp add: add.commute add.left_commute)
    qed
    have "ingest_summary w
        (case addImage E (imgs ! i) imageId w of Throw e w' \<Rightarrow> Throw e w'
         | Return u w' \<Rightarrow> images_loop E imgs (i + 1) (imageId + 1) w')
        (image_entry E (disk w) (imgs ! i) imageId #
         map (\<lambda>j. image_entry E (disk w) (imgs ! (i + Suc j)) (imageId + int (Suc j)))
           [0..<length imgs - Suc i])"
      by (rule ingest_summary_step[OF addImage_summary rest])
    then show ?thesis
      using True
        upt_shift[OF True, of "\<lambda>j. image_entry E (disk w) (imgs ! (i + j)) (imageId + int j)"]
      by simp
  qed
qed

lemma texts_loop_summary:
  "ingest_summary w (texts_loop E txts i textId w)
     (map (\<lambda>j. text_entry E (txts ! (i + j)) (textId + int j)) [0..<length txts - i])"
proof (induction E txts i textId w rule: texts_loop.induct)
  case (1 E txts i textId w)
  show ?case
  proof (cases "i < length txts")
    case False
    then show ?thesis by (simp add: ingest_summary_Nil)
  next
    case True
    have rest: "ingest_summary w1 (texts_loop E txts (i + 1) (textId + 1) w1)
        (map (\<lambda>j. text_entry E (txts ! (i + Suc j)) (textId + int (Suc j)))
           [0..<length txts - Suc i])"
      if r: "addText E (txts ! i) textId w = Return u w1" for u w1
      using "1.IH"[OF True r] by (simp add: add.commute add.left_commute)
    have "ingest_summary w
        (case addText E (txts ! i) textId w of Throw e w' \<Rightarrow> Throw e w'
         | Return u w' \<Rightarrow> texts_loop E txts (i + 1) (textId + 1) w')
        (text_entry E (txts ! i) textId #
         map (\<lambda>j. text_entry E (txts ! (i + Suc j)) (textId + int (Suc j)))
           [0..<length txts - Suc i])"
      by (rule ingest_summary_step[OF addText_summary rest])
    then show ?thesis
      using True
        upt_shift[OF True, of "\<lambda>j. text_entry E (txts ! (i + j)) (textId + int j)"]
      by simp
  qed
qed

declare images_loop.simps [simp del] texts_loop.simps [simp del] digits.simps [simp del]

lemma length_images: "length images = 6"
  by (simp add: images_def)

lemma length_texts: "length texts = 3"
  by (simp add: texts_def)

text \<open>The two loops together store the catalog with one running counter.\<close>
lemma catalog_loops_summary:
  "ingest_summary w
     (andThen (images_loop E images 0 0 w) (\<lambda>u w2. texts_loop E texts 0 (int (length images)) w2))
     (catalog_entries E (disk w))"
proof (cases "images_loop E images 0 0 w")
  case (Return u w1)
  have a: "ingest_summary w (Return u w1) (map (\<lambda>i. image_entry E (disk w) (images ! i) (int i)) [0..<6])"
    using images_loop_summary[of w E images 0 0] Return by (simp add: length_images)
  have d: "disk w1 = disk w" using summary_disk[OF a] .
  have b: "ingest_summary w1 (texts_loop E texts 0 (int (length images)) w1)
      (map (\<lambda>j. text_entry E (texts ! j) (6 + int j)) [0..<3])"
    using texts_loop_summary[of w1 E texts 0 "int (length images)"]
    by (simp add: length_images length_texts)
  show ?thesis
    using ingest_summary_Return_append[OF a b] Return by (simp add: catalog_entries_def)
next
  case (Throw e w1)
  have a: "ingest_summary w (Throw e w1) (map (\<lambda>i. image_entry E (disk w) (images ! i) (int i)) [0..<6])"
    using images_loop_summary[of w E images 0 0] Throw by (simp add: length_images)
  show ?thesis
    using ingest_summary_Throw_append[OF a] Throw by (simp add: catalog_entries_def)
qed

subsection \<open>The calls of the ingestion\<close>

lemma addVectors_refused:
  "addVectors v d w = Return () (emit (AddVectors v d) w\<lparr>vectorStore := vectorStore w @ [(v, d)]\<rparr>) \<or>
   (addVectors v d w = Throw StoreError (emit (AddVectors v d) w) \<and>
    vectorStore w \<noteq> [] \<and> length v \<noteq> length (fst (hd (vectorStore w))))"
  by (auto simp: addVectors_def Let_def split: list.splits)

lemma addImage_traced:
  "ingest_traced w (addImage E p i w) [image_entry E (disk w) p i] [image_events E (disk w) p i]"
proof (cases "map_of (disk w) p")
  case None
  then show ?thesis
    by (simp add: ingest_traced_def ingest_events_def addImage_def readFileSync_def Let_def
        image_entry_def image_events_def)
next
  case (Some n)
  show ?thesis
  proof (cases "\<exists>img. n = File img")
    case False
    then show ?thesis using Some
      by (cases n; simp add: ingest_traced_def ingest_events_def addImage_def readFileSync_def
            Let_def image_entry_def image_events_def)
  next
    case True
    then obtain img where n: "n = File img" by blast
    show ?thesis
    proof (cases "embedImageQuery E img")
      case (Inl e)
      then show ?thesis using Some n
        by (simp add: ingest_traced_def ingest_events_def addImage_def readFileSync_def
            call_embedImageQuery_def Let_def image_entry_def image_events_def)
    next
      case (Inr v)
      let ?d = "Document (toString_base64 img)
                  \<lparr>id_md = i, mediaType = ''image'', path = Some p\<rparr>"
      let ?w2 = "emit (EmbedImage img) (emit (ReadFile p) w)"
      from addVectors_refused[of v ?d ?w2]
      show ?thesis
      proof
        assume a: "addVectors v ?d ?w2 =
            Return () (emit (AddVectors v ?d) ?w2\<lparr>vectorStore := vectorStore ?w2 @ [(v, ?d)]\<rparr>)"
        show ?thesis using Some n Inr a
          by (simp add: ingest_traced_def ingest_events_def addImage_def readFileSync_def
              call_embedImageQuery_def Let_def image_entry_def image_events_def console_log_def)
      next
        assume a: "addVectors v ?d ?w2 = Throw StoreError (emit (AddVectors v ?d) ?w2) \<and>
            vectorStore ?w2 \<noteq> [] \<and> length v \<noteq> length (fst (hd (vectorStore ?w2)))"
        show ?thesis using Some n Inr a
          by (simp add: ingest_traced_def ingest_events_def addImage_def readFileSync_def
              call_embedImageQuery_def Let_def image_entry_def image_events_def console_log_def)
      qed
    qed
  qed
qed

lemma addText_traced:
  "ingest_traced w (addText E x i w) [text_entry E x i] [text_events E x i]"
proof (cases "embedQuery E x")
  case (Inl e)
  then show ?thesis
    by (simp add: ingest_traced_def ingest_events_def addText_def call_embedQuery_def Let_def
        text_entry_def text_events_def)
next
  case (Inr v)
  let ?d = "Document x \<lparr>id_md = i, mediaType = ''text'', path = None\<rparr>"
  let ?w1 = "emit (EmbedText x) w"
  from addVectors_refused[of v ?d ?w1]
  show ?thesis
  proof
    assume a: "addVectors v ?d ?w1 =
        Return () (emit (AddVectors v ?d) ?w1\<lparr>vectorStore := vectorStore ?w1 @ [(v, ?d)]\<rparr>)"
    show ?thesis using Inr a
      by (simp add: ingest_traced_def ingest_events_def addText_def call_embedQuery_def Let_def
          text_entry_def text_events_def console_log_def)
  next
    assume a: "addVectors v ?d ?w1 = Throw StoreError (emit (AddVectors v ?d) ?w1) \<and>
        vectorStore ?w1 \<noteq> [] \<and> length v \<noteq> length (fst (hd (vectorStore ?w1)))"
    show ?thesis using Inr a
      by (simp add: ingest_traced_def ingest_events_def addText_def call_embedQuery_def Let_def
          text_entry_def text_events_def console_log_def)
  qed
qed

lemma summary_growth:
  assumes "ingest_summary w r xs"
  obtains new where "vectorStore (world_of r) = vectorStore w @ new"
    "length (vectorStore (world_of r)) - length (vectorStore w) = length new"
    "length new \<le> length xs" "returns r \<longleftrightarrow> length new = length xs"
    "map Some new = take (length new) xs"
proof -
  from assms obtain new t where h:
    "vectorStore (world_of r) = vectorStore w @ new"
    "length new \<le> length xs" "map Some new = take (length new) xs"
    "returns r \<longleftrightarrow> length new = length xs"
    by (rule ingest_summaryD)
  show ?thesis using that[of new] h by simp
qed

lemma ingest_traced_Throw_append:
  assumes s: "ingest_summary w (Throw e w1) xs" and t: "ingest_traced w (Throw e w1) xs as"
    and l: "length as = length xs"
  shows "ingest_traced w (Throw e w1) (xs @ ys) (as @ bs)"
proof -
  from s obtain new where h:
    "vectorStore (world_of (Throw e w1 :: unit result)) = vectorStore w @ new"
    "length (vectorStore (world_of (Throw e w1 :: unit result))) - length (vectorStore w) = length new"
    "length new \<le> length xs" "returns (Throw e w1 :: unit result) \<longleftrightarrow> length new = length xs"
    "map Some new = take (length new) xs"
    by (rule summary_growth)
  have lt: "length new < length xs" using h(3,4) by simp
  have m: "length (vectorStore w1) - length (vectorStore w) = length new" using h(2) by simp
  show ?thesis
    using t lt l unfolding ingest_traced_def ingest_events_def
    by (simp add: m nth_append)
qed

lemma ingest_traced_Return_append:
  assumes s1: "ingest_summary w (Return u w1) xs" and t1: "ingest_traced w (Return u w1) xs as"
    and l: "length as = length xs"
    and s2: "ingest_summary w1 r ys" and t2: "ingest_traced w1 r ys bs"
  shows "ingest_traced w r (xs @ ys) (as @ bs)"
proof -
  from s1 obtain new1 where g:
    "vectorStore (world_of (Return u w1)) = vectorStore w @ new1"
    "length (vectorStore (world_of (Return u w1))) - length (vectorStore w) = length new1"
    "length new1 \<le> length xs" "returns (Return u w1) \<longleftrightarrow> length new1 = length xs"
    "map Some new1 = take (length new1) xs"
    by (rule summary_growth)
  from s2 obtain new2 where h:
    "vectorStore (world_of r) = vectorStore w1 @ new2"
    "length (vectorStore (world_of r)) - length (vectorStore w1) = length new2"
    "length new2 \<le> length ys" "returns r \<longleftrightarrow> length new2 = length ys"
    "map Some new2 = take (length new2) ys"
    by (rule summary_growth)
  have l1: "length new1 = length xs" using g(4) by simp
  have s: "vectorStore w1 = vectorStore w @ new1" using g(1) by simp
  have m1: "length (vectorStore w1) - length (vectorStore w) = length xs" using s l1 by simp
  have m: "length (vectorStore (world_of r)) - length (vectorStore w) = length xs + length new2"
    using h(1) s l1 by simp
  have tr1: "trace w1 = trace w @ concat as"
    using t1 l unfolding ingest_traced_def ingest_events_def by (simp add: m1)
  have tr2: "trace (world_of r) = trace w1 @ ingest_events bs ys (length new2) (returns r)"
    using t2 unfolding ingest_traced_def by (simp add: h(2))
  have e: "ingest_events (as @ bs) (xs @ ys) (length xs + length new2) (returns r) =
      concat as @ ingest_events bs ys (length new2) (returns r)"
    unfolding ingest_events_def using l by (simp add: nth_append)
  have c: "returns r \<or> ys ! length new2 = None \<or>
       (error_of r = Some StoreError \<and> vectorStore (world_of r) \<noteq> [] \<and>
        length (fst (the (ys ! length new2))) \<noteq> length (fst (hd (vectorStore (world_of r)))))"
    using t2 unfolding ingest_traced_def by (simp add: h(2))
  show ?thesis
    unfolding ingest_traced_def m e using tr1 tr2 c by (simp add: nth_append)
qed

lemma ingest_traced_Nil: "ingest_traced w (Return () w) [] []"
  by (simp add: ingest_traced_def ingest_events_def)

lemma ingest_traced_step:
  assumes s1: "ingest_summary w r1 [x]" and t1: "ingest_traced w r1 [x] [a]"
    and rest: "\<And>u w1. r1 = Return u w1 \<Longrightarrow> ingest_summary w1 (k u w1) xs \<and> ingest_traced w1 (k u w1) xs as"
  shows "ingest_traced w (case r1 of Throw e w' \<Rightarrow> Throw e w' | Return u w' \<Rightarrow> k u w') (x # xs) (a # as)"
proof (cases r1)
  case (Return u w1)
  show ?thesis
    using ingest_traced_Return_append[of w u w1 "[x]" "[a]" "k u w1" xs as] s1 t1 rest[OF Return] Return
    by simp
next
  case (Throw e w1)
  show ?thesis
    using ingest_traced_Throw_append[of w e w1 "[x]" "[a]" xs as] s1 t1 Throw by simp
qed

lemma images_loop_traced:
  "ingest_traced w (images_loop E imgs i imageId w)
     (map (\<lambda>j. image_entry E (disk w) (imgs ! (i + j)) (imageId + int j)) [0..<length imgs - i])
     (map (\<lambda>j. image_events E (disk w) (imgs ! (i + j)) (imageId + int j)) [0..<length imgs - i])"
proof (induction E imgs i imageId w rule: images_loop.induct)
  case (1 E imgs i imageId w)
  show ?case
  proof (cases "i < length imgs")
    case False
    then show ?thesis by (simp add: ingest_traced_Nil images_loop.simps)
  next
    case True
    have rest: "ingest_summary w1 (images_loop E imgs (i + 1) (imageId + 1) w1)
        (map (\<lambda>j. image_entry E (disk w) (imgs ! (i + Suc j)) (imageId + int (Suc j)))
           [0..<length imgs - Suc i]) \<and>
      ingest_traced w1 (images_loop E imgs (i + 1) (imageId + 1) w1)
        (map (\<lambda>j. image_entry E (disk w) (imgs ! (i + Suc j)) (imageId + int (Suc j)))
           [0..<length imgs - Suc i])
        (map (\<lambda>j. image_events E (disk w) (imgs ! (i + Suc j)) (imageId + int (Suc j)))
           [0..<length imgs - Suc i])"
      if r: "addImage E (imgs ! i) imageId w = Return u w1" for u w1
    proof -
      have d: "disk w1 = disk w"
        using addImage_summary[of w E "imgs ! i" imageId] r summary_disk by metis
      show ?thesis
        using "1.IH"[OF True r] images_loop_summary[of w1 E imgs "i + 1" "imageId + 1"] d
        by (simp add: add.commute add.left_commute)
    qed
    have "ingest_traced w
        (case addImage E (imgs ! i) imageId w of Throw e w' \<Rightarrow> Throw e w'
         | Return u w' \<Rightarrow> images_loop E imgs (i + 1) (imageId + 1) w')
        (image_entry E (disk w) (imgs ! i) imageId #
         map (\<lambda>j. image_entry E (disk w) (imgs ! (i + Suc j)) (imageId + int (Suc j)))
           [0..<length imgs - Suc i])
        (image_events E (disk w) (imgs ! i) imageId #
         map (\<lambda>j. image_events E (disk w) (imgs ! (i + Suc j)) (imageId + int (Suc j)))
           [0..<length imgs - Suc i])"
      by (rule ingest_traced_step[OF addImage_summary addImage_traced rest])
    then show ?thesis
      using True
        upt_shift[OF True, of "\<lambda>j. image_entry E (disk w) (imgs ! (i + j)) (imageId + int j)"]
        upt_shift[OF True, of "\<lambda>j. image_events E (disk w) (imgs ! (i + j)) (imageId + int j)"]
      by (simp add: images_loop.simps[of E imgs i])
  qed
qed

lemma texts_loop_traced:
  "ingest_traced w (texts_loop E txts i textId w)
     (map (\<lambda>j. text_entry E (txts ! (i + j)) (textId + int j)) [0..<length txts - i])
     (map (\<lambda>j. text_events E (txts ! (i + j)) (textId + int j)) [0..<length txts - i])"
proof (induction E txts i textId w rule: texts_loop.induct)
  case (1 E txts i textId w)
  show ?case
  proof (cases "i < length txts")
    case False
    then show ?thesis by (simp add: ingest_traced_Nil texts_loop.simps)
  next
    case True
    have rest: "ingest_summary w1 (texts_loop E txts (i + 1) (textId + 1) w1)
        (map (\<lambda>j. text_entry E (txts ! (i + Suc j)) (textId + int (Suc j)))
           [0..<length txts - Suc i]) \<and>
      ingest_traced w1 (texts_loop E txts (i + 1) (textId + 1) w1)
        (map (\<lambda>j. text_entry E (txts ! (i + Suc j)) (textId + int (Suc j)))
           [0..<length txts - Suc i])
        (map (\<lambda>j. text_events E (txts ! (i + Suc j)) (textId + int (Suc j)))
           [0..<length txts - Suc i])"
      if r: "addText E (txts ! i) textId w = Return u w1" for u w1
      using "1.IH"[OF True r] texts_loop_summary[of w1 E txts "i + 1" "textId + 1"]
      by (simp add: add.commute add.left_commute)
    have "ingest_traced w
        (case addText E (txts ! i) textId w of Throw e w' \<Rightarrow> Throw e w'
         | Return u w' \<Rightarrow> texts_loop E txts (i + 1) (textId + 1) w')
        (text_entry E (txts ! i) textId #
         map (\<lambda>j. text_entry E (txts ! (i + Suc j)) (textId + int (Suc j)))
           [0..<length txts - Suc i])
        (text_events E (txts ! i) textId #
         map (\<lambda>j. text_events E (txts ! (i + Suc j)) (textId + int (Suc j)))
           [0..<length txts - Suc i])"
      by (rule ingest_traced_step[OF addText_summary addText_traced rest])
    then show ?thesis
      using True
        upt_shift[OF True, of "\<lambda>j. text_entry E (txts ! (i + j)) (textId + int j)"]
        upt_shift[OF True, of "\<lambda>j. text_events E (txts ! (i + j)) (textId + int j)"]
      by (simp add: texts_loop.simps[of E txts i])
  qed
qed

lemma length_catalog_events [simp]: "length (catalog_events E f) = 9"
  by (simp add: catalog_events_def)

lemma catalog_loops_traced:
  "ingest_traced w
     (andThen (images_loop E images 0 0 w) (\<lambda>u w2. texts_loop E texts 0 (int (length images)) w2))
     (catalog_entries E (disk w)) (catalog_events E (disk w))"
proof (cases "images_loop E images 0 0 w")
  case (Return u w1)
  have a: "ingest_summary w (Return u w1) (map (\<lambda>i. image_entry E (disk w) (images ! i) (int i)) [0..<6])"
    using images_loop_summary[of w E images 0 0] Return by (simp add: length_images)
  have a': "ingest_traced w (Return u w1)
      (map (\<lambda>i. image_entry E (disk w) (images ! i) (int i)) [0..<6])
      (map (\<lambda>i. image_events E (disk w) (images ! i) (int i)) [0..<6])"
    using images_loop_traced[of w E images 0 0] Return by (simp add: length_images)
  have d: "disk w1 = disk w" using summary_disk[OF a] .
  have b: "ingest_summary w1 (texts_loop E texts 0 (int (length images)) w1)
      (map (\<lambda>j. text_entry E (texts ! j) (6 + int j)) [0..<3])"
    using texts_loop_summary[of w1 E texts 0 "int (length images)"]
    by (simp add: length_images length_texts)
  have b': "ingest_traced w1 (texts_loop E texts 0 (int (length images)) w1)
      (map (\<lambda>j. text_entry E (texts ! j) (6 + int j)) [0..<3])
      (map (\<lambda>j. text_events E (texts ! j) (6 + int j)) [0..<3])"
    using texts_loop_traced[of w1 E texts 0 "int (length images)"]
    by (simp add: length_images length_texts)
  show ?thesis
    using ingest_traced_Return_append[OF a a' _ b b'] Return
    by (simp add: catalog_entries_def catalog_events_def)
next
  case (Throw e w1)
  have a: "ingest_summary w (Throw e w1) (map (\<lambda>i. image_entry E (disk w) (images ! i) (int i)) [0..<6])"
    using images_loop_summary[of w E images 0 0] Throw by (simp add: length_images)
  have a': "ingest_traced w (Throw e w1)
      (map (\<lambda>i. image_entry E (disk w) (images ! i) (int i)) [0..<6])
      (map (\<lambda>i. image_events E (disk w) (images ! i) (int i)) [0..<6])"
    using images_loop_traced[of w E images 0 0] Throw by (simp add: length_images)
  show ?thesis
    using ingest_traced_Throw_append[OF a a'] Throw
    by (simp add: catalog_entries_def catalog_events_def)
qed

subsection \<open>\<^verbatim>\<open>addItemsToVectorStore\<close>\<close>

lemma addItems_absent:
  "map_of (disk w) vectorStorePath = None \<Longrightarrow>
   addItemsToVectorStore E w =
     andThen (images_loop E images 0 0 (emit (Exists vectorStorePath) w))
       (\<lambda>u w2. texts_loop E texts 0 (int (length images)) w2)"
  by (simp add: addItemsToVectorStore_def existsSync_def)

lemma addItems_present:
  "map_of (disk w) vectorStorePath \<noteq> None \<Longrightarrow>
   addItemsToVectorStore E w = Return () (emit (Exists vectorStorePath) w)"
  by (auto simp: addItemsToVectorStore_def existsSync_def)

lemma addItems_summary:
  assumes "map_of (disk w) vectorStorePath = None"
  shows "ingest_summary (emit (Exists vectorStorePath) w) (addItemsToVectorStore E w)
           (catalog_entries E (disk w))"
  using catalog_loops_summary[of "emit (Exists vectorStorePath) w" E]
  unfolding addItems_absent[OF assms] by simp

lemma length_catalog [simp]:
  "length (catalog_entries E f) = 9" "length catalog_metadata = 9"
  by (simp_all add: catalog_entries_def catalog_metadata_def)

lemma image_entry_metadata:
  "image_entry E f p i = Some x \<Longrightarrow>
   metadata (snd x) = \<lparr>id_md = i, mediaType = ''image'', path = Some p\<rparr>"
  by (auto simp: image_entry_def split: option.splits node.splits sum.splits)

lemma text_entry_metadata:
  "text_entry E t i = Some x \<Longrightarrow>
   metadata (snd x) = \<lparr>id_md = i, mediaType = ''text'', path = None\<rparr>"
  by (auto simp: text_entry_def split: sum.splits)

lemma catalog_entry_metadata:
  assumes "j < 9" "catalog_entries E f ! j = Some x"
  shows "metadata (snd x) = catalog_metadata ! j"
proof (cases "j < 6")
  case True
  then show ?thesis
    using assms(2) image_entry_metadata[of E f "images ! j" "int j" x]
    by (simp add: catalog_entries_def catalog_metadata_def nth_append)
next
  case False
  then have "j - 6 < 3" using assms(1) by simp
  then show ?thesis
    using False assms(2) text_entry_metadata[of E "texts ! (j - 6)" "6 + int (j - 6)" x]
    by (simp add: catalog_entries_def catalog_metadata_def nth_append)
qed

lemma catalog_prefix_metadata:
  assumes "map Some new = take (length new) (catalog_entries E f)" "length new \<le> 9"
  shows "map (metadata \<circ> snd) new = take (length new) catalog_metadata"
proof (rule nth_equalityI)
  show "length (map (metadata \<circ> snd) new) = length (take (length new) catalog_metadata)"
    using assms(2) by simp
next
  fix j assume "j < length (map (metadata \<circ> snd) new)"
  then have j: "j < length new" by simp
  have "map Some new ! j = take (length new) (catalog_entries E f) ! j"
    using assms(1) by simp
  then have "catalog_entries E f ! j = Some (new ! j)" using j by simp
  then have "metadata (snd (new ! j)) = catalog_metadata ! j"
    using catalog_entry_metadata[of j E f "new ! j"] j assms(2) by simp
  then show "map (metadata \<circ> snd) new ! j = take (length new) catalog_metadata ! j"
    using j by simp
qed

lemma catalog_metadata_ids: "map id_md catalog_metadata = map int [0..<9]"
proof (rule nth_equalityI)
  show "length (map id_md catalog_metadata) = length (map int [0..<9])" by simp
next
  fix j assume "j < length (map id_md catalog_metadata)"
  then have j: "j < 9" by simp
  then show "map id_md catalog_metadata ! j = map int [0..<9] ! j"
    by (cases "j < 6") (simp_all add: catalog_metadata_def nth_append)
qed

lemma upt_9: "[0..<9] = [0, 1, 2, 3, 4, 5, 6, 7, 8]"
  by (simp add: upt_rec)

lemma less_9_cases:
  "j < 9 \<Longrightarrow> j = 0 \<or> j = 1 \<or> j = 2 \<or> j = 3 \<or> j = 4 \<or> j = 5 \<or> j = 6 \<or> j = 7 \<or> j = (8::nat)"
  by arith

lemma all_less_9I:
  assumes "P (0::nat)" "P 1" "P 2" "P 3" "P 4" "P 5" "P 6" "P 7" "P 8"
  shows "\<forall>j<9. P j"
proof (intro allI impI)
  fix j :: nat assume "j < 9"
  from less_9_cases[OF this] show "P j" using assms by (elim disjE) simp_all
qed

lemma catalog_metadata_listed:
  "catalog_metadata =
     [\<lparr>id_md = 0, mediaType = ''image'', path = Some ''images/dog.jpeg''\<rparr>,
      \<lparr>id_md = 1, mediaType = ''image'', path = Some ''images/cat.jpg''\<rparr>,
      \<lparr>id_md = 2, mediaType = ''image'', path = Some ''images/parrot.jpg''\<rparr>,
      \<lparr>id_md = 3, mediaType = ''image'', path = Some ''images/iphone.jpeg''\<rparr>,
      \<lparr>id_md = 4, mediaType = ''image'', path = Some ''images/steve.jpeg''\<rparr>,
      \<lparr>id_md = 5, mediaType = ''image'', path = Some ''images/airpod.jpeg''\<rparr>,
      \<lparr>id_md = 6, mediaType = ''text'', path = None\<rparr>,
      \<lparr>id_md = 7, mediaType = ''text'', path = None\<rparr>,
      \<lparr>id_md = 8, mediaType = ''text'', path = None\<rparr>]"
  by (simp add: catalog_metadata_def images_def upt_rec)

text \<open>What a run of the ingestion step leaves behind when no store is persisted.\<close>
lemma addItems_absent_effect:
  assumes "map_of (disk w) vectorStorePath = None"
  obtains new t where
    "disk (world_of (addItemsToVectorStore E w)) = disk w"
    "vectorStore (world_of (addItemsToVectorStore E w)) = vectorStore w @ new"
    "trace (world_of (addItemsToVectorStore E w)) = trace w @ Exists vectorStorePath # t"
    "length new \<le> 9" "map Some new = take (length new) (catalog_entries E (disk w))"
    "returns (addItemsToVectorStore E w) \<longleftrightarrow> length new = 9" "list_all ingest_event t"
    "length new \<le> embed_calls t" "embed_calls t \<le> length new + 1"
    "length new \<le> add_calls t" "add_calls t \<le> length new + 1"
    "returns (addItemsToVectorStore E w) \<longrightarrow> embed_calls t = length new \<and> add_calls t = length new"
    "add_calls t = length new + 1 \<longrightarrow> error_of (addItemsToVectorStore E w) = Some StoreError"
    "\<not> returns (addItemsToVectorStore E w) \<longrightarrow>
       catalog_entries E (disk w) ! length new = None \<or> add_calls t = length new + 1"
proof -
  from addItems_summary[OF assms, of E] show ?thesis
    by (rule ingest_summaryD) (rule that; simp)
qed

lemma fresh_ingest_returns: "returns (addItemsToVectorStore far_env fresh_world)"
  by (simp add: addItemsToVectorStore_def existsSync_def images_loop.simps texts_loop.simps
      addImage_def addText_def readFileSync_def call_embedImageQuery_def call_embedQuery_def
      addVectors_def console_log_def Let_def fresh_world_def fresh_disk_def far_env_def
      images_def texts_def vectorStorePath_def)

lemma fresh_no_store: "map_of (disk fresh_world) vectorStorePath = None"
  by (simp add: fresh_world_def fresh_disk_def vectorStorePath_def)

lemma addItems_traced:
  assumes "map_of (disk w) vectorStorePath = None"
  shows "ingest_traced (emit (Exists vectorStorePath) w) (addItemsToVectorStore E w)
           (catalog_entries E (disk w)) (catalog_events E (disk w))"
  using catalog_loops_traced[of "emit (Exists vectorStorePath) w" E]
  unfolding addItems_absent[OF assms] by simp

text \<open>The calls of the ingestion step when no store is persisted.\<close>
lemma addItems_absent_calls:
  assumes "map_of (disk w) vectorStorePath = None"
  obtains new where
    "vectorStore (world_of (addItemsToVectorStore E w)) = vectorStore w @ new"
    "length new \<le> 9" "map Some new = take (length new) (catalog_entries E (disk w))"
    "returns (addItemsToVectorStore E w) \<longleftrightarrow> length new = 9"
    "disk (world_of (addItemsToVectorStore E w)) = disk w"
    "trace (world_of (addItemsToVectorStore E w)) =
       trace w @ Exists vectorStorePath #
       ingest_events (catalog_events E (disk w)) (catalog_entries E (disk w)) (length new)
         (returns (addItemsToVectorStore E w))"
    "returns (addItemsToVectorStore E w) \<or> catalog_entries E (disk w) ! length new = None \<or>
       (error_of (addItemsToVectorStore E w) = Some StoreError \<and>
        vectorStore (world_of (addItemsToVectorStore E w)) \<noteq> [] \<and>
        length (fst (the (catalog_entries E (disk w) ! length new))) \<noteq>
          length (fst (hd (vectorStore (world_of (addItemsToVectorStore E w))))))"
proof -
  let ?r = "addItemsToVectorStore E w"
  from assms obtain new t where h:
    "disk (world_of ?r) = disk w"
    "vectorStore (world_of ?r) = vectorStore w @ new"
    "length new \<le> 9" "map Some new = take (length new) (catalog_entries E (disk w))"
    "returns ?r \<longleftrightarrow> length new = 9"
    using addItems_absent_effect[of w E] by metis
  have m: "length (vectorStore (world_of ?r)) - length (vectorStore (emit (Exists vectorStorePath) w))
      = length new"
    using h(2) by simp
  note t = addItems_traced[OF assms, of E, unfolded ingest_traced_def m]
  show ?thesis
  proof (rule that[of new])
    show "trace (world_of ?r) = trace w @ Exists vectorStorePath #
       ingest_events (catalog_events E (disk w)) (catalog_entries E (disk w)) (length new) (returns ?r)"
      using t by simp
    show "returns ?r \<or> catalog_entries E (disk w) ! length new = None \<or>
       (error_of ?r = Some StoreError \<and> vectorStore (world_of ?r) \<noteq> [] \<and>
        length (fst (the (catalog_entries E (disk w) ! length new))) \<noteq>
          length (fst (hd (vectorStore (world_of ?r)))))"
      using t by simp
  qed (fact h)+
qed

text \<open>
  Into a new store the ingestion step returns when every catalog item can be read and
  embedded and the embedder gives vectors of one dimension.
\<close>
lemma ingestion_returns:
  assumes a: "map_of (disk w) vectorStorePath = None" and e: "vectorStore w = []"
    and c: "\<forall>k<9. \<exists>v d. catalog_entries E (disk w) ! k = Some (v, d) \<and> length v = n"
  shows "returns (addItemsToVectorStore E w)"
proof (rule ccontr)
  let ?r = "addItemsToVectorStore E w"
  assume nr: "\<not> returns ?r"
  from a obtain new where h:
    "vectorStore (world_of ?r) = vectorStore w @ new"
    "length new \<le> 9" "map Some new = take (length new) (catalog_entries E (disk w))"
    "returns ?r \<longleftrightarrow> length new = 9"
    "returns ?r \<or> catalog_entries E (disk w) ! length new = None \<or>
       (error_of ?r = Some StoreError \<and> vectorStore (world_of ?r) \<noteq> [] \<and>
        length (fst (the (catalog_entries E (disk w) ! length new))) \<noteq>
          length (fst (hd (vectorStore (world_of ?r)))))"
    using addItems_absent_calls[of w E] by metis
  have lt: "length new < 9" using h(2,4) nr by simp
  from c lt obtain v d where v: "catalog_entries E (disk w) ! length new = Some (v, d)" "length v = n"
    by blast
  have s: "vectorStore (world_of ?r) = new" using h(1) e by simp
  have r: "new \<noteq> []" "length v \<noteq> length (fst (hd new))"
    using h(5) nr v(1) unfolding s by simp_all
  then have "0 < length new" by simp
  then have "map Some new ! 0 = catalog_entries E (disk w) ! 0" using h(3) by simp
  then have "Some (hd new) = catalog_entries E (disk w) ! 0" using r(1) by (simp add: hd_conv_nth)
  moreover from c have "\<exists>v d. catalog_entries E (disk w) ! 0 = Some (v, d) \<and> length v = n"
    by simp
  then obtain v0 d0 where "catalog_entries E (disk w) ! 0 = Some (v0, d0)" "length v0 = n"
    by blast
  ultimately have "length (fst (hd new)) = n" by simp
  then show False using r(2) v(2) by simp
qed

lemma image_entry_Some:
  assumes "image_entry E f p i = Some x"
  shows "\<exists>img. map_of f p = Some (File img) \<and> embedImageQuery E img = Inr (fst x) \<and>
           snd x = Document (toString_base64 img) \<lparr>id_md = i, mediaType = ''image'', path = Some p\<rparr>"
  using assms by (auto simp: image_entry_def split: option.splits node.splits sum.splits)

lemma text_entry_Some:
  assumes "text_entry E t i = Some x"
  shows "embedQuery E t = Inr (fst x) \<and>
         snd x = Document t \<lparr>id_md = i, mediaType = ''text'', path = None\<rparr>"
  using assms by (auto simp: text_entry_def split: sum.splits)

lemma texts_nonempty: "j < 3 \<Longrightarrow> texts ! j \<noteq> []"
proof -
  assume "j < 3"
  then have "j = 0 \<or> j = 1 \<or> j = 2" by auto
  then show ?thesis by (auto simp: texts_def)
qed

lemma prefix_nth:
  assumes "map Some new = take (length new) xs" "i < length new"
  shows "xs ! i = Some (new ! i)"
proof -
  have "map Some new ! i = take (length new) xs ! i" using assms(1) by simp
  then show ?thesis using assms(2) by simp
qed

text \<open>
  Claim C1.  With no store at the configured path, the ingestion step appends to the
  store a prefix of the catalog, and the whole catalog exactly when it returns.  The
  entry at position i < 6 is the i-th image: the embedding and the document of the file
  at the i-th image path, with identifier i and that path.  The entry at position 6 + j
  is the j-th text: its embedding and the document of that text, with identifier 6 + j.
  So the metadata of the appended documents are those of the catalog in order, and the
  identifiers are 0, 1, 2, ... in store order and pairwise distinct.  A step that returns
  has made the calls of the nine items in catalog order and no other.
\<close>
theorem ingestion_assigns_catalog_ids:
  assumes "map_of (disk w) vectorStorePath = None"
  shows "\<exists>new. vectorStore (world_of (addItemsToVectorStore E w)) = vectorStore w @ new \<and>
           length new \<le> 9 \<and>
           (returns (addItemsToVectorStore E w) \<longleftrightarrow> length new = 9) \<and>
           (\<forall>i<6. i < length new \<longrightarrow>
              (\<exists>img. map_of (disk w) (images ! i) = Some (File img) \<and>
                     embedImageQuery E img = Inr (fst (new ! i)) \<and>
                     snd (new ! i) = Document (toString_base64 img)
                       \<lparr>id_md = int i, mediaType = ''image'', path = Some (images ! i)\<rparr>)) \<and>
           (\<forall>j<3. 6 + j < length new \<longrightarrow>
              embedQuery E (texts ! j) = Inr (fst (new ! (6 + j))) \<and>
              snd (new ! (6 + j)) =
                \<lparr>pageContent = Some (texts ! j),
                 metadata = \<lparr>id_md = 6 + int j, mediaType = ''text'', path = None\<rparr>\<rparr>) \<and>
           map (metadata \<circ> snd) new = take (length new) catalog_metadata \<and>
           map (id_md \<circ> metadata \<circ> snd) new = map int [0..<length new] \<and>
           distinct (map (id_md \<circ> metadata \<circ> snd) new) \<and>
           (returns (addItemsToVectorStore E w) \<longrightarrow>
              trace (world_of (addItemsToVectorStore E w)) =
                trace w @ Exists vectorStorePath # concat (catalog_events E (disk w)))"
proof -
  let ?r = "addItemsToVectorStore E w"
  from assms obtain new where h:
    "vectorStore (world_of ?r) = vectorStore w @ new"
    "length new \<le> 9" "map Some new = take (length new) (catalog_entries E (disk w))"
    "returns ?r \<longleftrightarrow> length new = 9"
    "trace (world_of ?r) =
       trace w @ Exists vectorStorePath #
       ingest_events (catalog_events E (disk w)) (catalog_entries E (disk w)) (length new) (returns ?r)"
    using addItems_absent_calls[of w E] by metis
  have im: "\<exists>img. map_of (disk w) (images ! i) = Some (File img) \<and>
                     embedImageQuery E img = Inr (fst (new ! i)) \<and>
                     snd (new ! i) = Document (toString_base64 img)
                       \<lparr>id_md = int i, mediaType = ''image'', path = Some (images ! i)\<rparr>"
    if "i < 6" "i < length new" for i
  proof -
    have "catalog_entries E (disk w) ! i = Some (new ! i)" using prefix_nth[OF h(3) that(2)] .
    then have "image_entry E (disk w) (images ! i) (int i) = Some (new ! i)"
      using that(1) by (simp add: catalog_entries_def nth_append)
    then show ?thesis by (rule image_entry_Some)
  qed
  have tx: "embedQuery E (texts ! j) = Inr (fst (new ! (6 + j))) \<and>
              snd (new ! (6 + j)) =
                \<lparr>pageContent = Some (texts ! j),
                 metadata = \<lparr>id_md = 6 + int j, mediaType = ''text'', path = None\<rparr>\<rparr>"
    if "j < 3" "6 + j < length new" for j
  proof -
    have "catalog_entries E (disk w) ! (6 + j) = Some (new ! (6 + j))"
      using prefix_nth[OF h(3) that(2)] .
    then have "text_entry E (texts ! j) (6 + int j) = Some (new ! (6 + j))"
      using that(1) by (simp add: catalog_entries_def nth_append)
    from text_entry_Some[OF this] show ?thesis
      using texts_nonempty[OF that(1)] by (simp add: Document_def)
  qed
  have m: "map (metadata \<circ> snd) new = take (length new) catalog_metadata"
    using catalog_prefix_metadata[OF h(3) h(2)] .
  have "map id_md (map (metadata \<circ> snd) new) = take (length new) (map id_md catalog_metadata)"
    unfolding m by (simp add: take_map)
  then have i: "map (id_md \<circ> metadata \<circ> snd) new = map int [0..<length new]"
    using h(2) unfolding catalog_metadata_ids by (simp add: take_map comp_def)
  have d: "distinct (map int [0..<length new])"
    by (simp add: distinct_map inj_on_def)
  have t: "trace (world_of ?r) = trace w @ Exists vectorStorePath # concat (catalog_events E (disk w))"
    if "returns ?r"
    using h(4,5) that by (simp add: ingest_events_def)
  show ?thesis
  proof (intro exI[of _ new] conjI allI impI)
    show "distinct (map (id_md \<circ> metadata \<circ> snd) new)" unfolding i using d .
  qed (use h(1,2,4) im tx m i t in blast)+
qed

lemma fresh_ingest_error: "error_of (addItemsToVectorStore far_env fresh_world) = None"
  using fresh_ingest_returns by (cases "addItemsToVectorStore far_env fresh_world") simp_all

theorem ingestion_assigns_catalog_ids_witness:
  "map_of (disk fresh_world) vectorStorePath = None \<and>
   map (id_md \<circ> metadata \<circ> snd) (vectorStore (world_of (addItemsToVectorStore far_env fresh_world)))
     = [0, 1, 2, 3, 4, 5, 6, 7, 8] \<and>
   map (metadata \<circ> snd) (vectorStore (world_of (addItemsToVectorStore far_env fresh_world)))
     = catalog_metadata \<and>
   vectorStore (world_of (addItemsToVectorStore far_env fresh_world)) ! 1 =
     ([2, 1004], \<lparr>pageContent = Some (toString_base64 [4, 5]),
        metadata = \<lparr>id_md = 1, mediaType = ''image'', path = Some ''images/cat.jpg''\<rparr>\<rparr>) \<and>
   vectorStore (world_of (addItemsToVectorStore far_env fresh_world)) ! 6 =
     ([30, 0], \<lparr>pageContent = Some ''Dogs are domesticated mammals.'',
        metadata = \<lparr>id_md = 6, mediaType = ''text'', path = None\<rparr>\<rparr>) \<and>
   vectorStore (world_of (addItemsToVectorStore far_env fresh_world)) ! 7 =
     ([59, 0], \<lparr>pageContent = Some ''Apple Inc. is an American multinational technology company.'',
        metadata = \<lparr>id_md = 7, mediaType = ''text'', path = None\<rparr>\<rparr>) \<and>
   vectorStore (world_of (addItemsToVectorStore far_env fresh_world)) ! 8 =
     ([82, 0], \<lparr>pageContent = Some ''Steve Jobs was the chairman, chief executive officer, and co-founder of Apple Inc.'',
        metadata = \<lparr>id_md = 8, mediaType = ''text'', path = None\<rparr>\<rparr>)"
proof -
  let ?r = "addItemsToVectorStore far_env fresh_world"
  from ingestion_assigns_catalog_ids[OF fresh_no_store, of far_env] obtain new where h:
    "vectorStore (world_of ?r) = vectorStore fresh_world @ new"
    "returns ?r \<longleftrightarrow> length new = 9"
    "\<forall>i<6. i < length new \<longrightarrow>
              (\<exists>img. map_of (disk fresh_world) (images ! i) = Some (File img) \<and>
                     embedImageQuery far_env img = Inr (fst (new ! i)) \<and>
                     snd (new ! i) = Document (toString_base64 img)
                       \<lparr>id_md = int i, mediaType = ''image'', path = Some (images ! i)\<rparr>)"
    "\<forall>j<3. 6 + j < length new \<longrightarrow>
              embedQuery far_env (texts ! j) = Inr (fst (new ! (6 + j))) \<and>
              snd (new ! (6 + j)) =
                \<lparr>pageContent = Some (texts ! j),
                 metadata = \<lparr>id_md = 6 + int j, mediaType = ''text'', path = None\<rparr>\<rparr>"
    "map (metadata \<circ> snd) new = take (length new) catalog_metadata"
    "map (id_md \<circ> metadata \<circ> snd) new = map int [0..<length new]"
    by blast
  have l: "length new = 9" using h(2) fresh_ingest_returns by simp
  have s: "vectorStore (world_of ?r) = new"
    using h(1) by (simp add: fresh_world_def)
  from h(3)[rule_format, of 1] l have "\<exists>img. map_of (disk fresh_world) (images ! 1) = Some (File img) \<and>
      embedImageQuery far_env img = Inr (fst (new ! 1)) \<and>
      snd (new ! 1) = Document (toString_base64 img)
        \<lparr>id_md = int 1, mediaType = ''image'', path = Some (images ! 1)\<rparr>"
    by simp
  then obtain img where i1: "map_of (disk fresh_world) (images ! 1) = Some (File img)"
    "embedImageQuery far_env img = Inr (fst (new ! 1))"
    "snd (new ! 1) = Document (toString_base64 img)
        \<lparr>id_md = int 1, mediaType = ''image'', path = Some (images ! 1)\<rparr>"
    by blast
  have "img = [4, 5]" using i1(1) by (simp add: fresh_world_def fresh_disk_def images_def)
  then have e1: "new ! 1 = ([2, 1004], \<lparr>pageContent = Some (toString_base64 [4, 5]),
        metadata = \<lparr>id_md = 1, mediaType = ''image'', path = Some ''images/cat.jpg''\<rparr>\<rparr>)"
    using i1(2,3) by (simp add: far_env_def images_def Document_def prod_eq_iff)
  have t: "embedQuery far_env (texts ! j) = Inr (fst (new ! (6 + j))) \<and>
              snd (new ! (6 + j)) =
                \<lparr>pageContent = Some (texts ! j),
                 metadata = \<lparr>id_md = 6 + int j, mediaType = ''text'', path = None\<rparr>\<rparr>"
    if "j < 3" for j using h(4) l that by simp
  have e6: "new ! 6 = ([30, 0], \<lparr>pageContent = Some ''Dogs are domesticated mammals.'',
        metadata = \<lparr>id_md = 6, mediaType = ''text'', path = None\<rparr>\<rparr>)"
    using t[of 0] by (simp add: far_env_def texts_def prod_eq_iff)
  have e7: "new ! 7 = ([59, 0], \<lparr>pageContent = Some ''Apple Inc. is an American multinational technology company.'',
        metadata = \<lparr>id_md = 7, mediaType = ''text'', path = None\<rparr>\<rparr>)"
    using t[of 1] by (simp add: far_env_def texts_def prod_eq_iff)
  have e8: "new ! 8 = ([82, 0], \<lparr>pageContent = Some ''Steve Jobs was the chairman, chief executive officer, and co-founder of Apple Inc.'',
        metadata = \<lparr>id_md = 8, mediaType = ''text'', path = None\<rparr>\<rparr>)"
    using t[of 2] by (simp add: far_env_def texts_def prod_eq_iff)
  have ids: "map (id_md \<circ> metadata \<circ> snd) new = [0, 1, 2, 3, 4, 5, 6, 7, 8]"
    using h(6) unfolding l by (simp add: upt_9)
  have md: "map (metadata \<circ> snd) new = catalog_metadata" using h(5) unfolding l by simp
  show ?thesis unfolding s using fresh_no_store ids md e1 e6 e7 e8 by blast
qed

lemma addImage_effect:
  "\<exists>new. vectorStore (world_of (addImage E p i w)) = vectorStore w @ new \<and>
     map Some new = take (length new) [image_entry E (disk w) p i]"
  using addImage_summary[of w E p i] by (rule ingest_summaryD) blast

lemma addText_effect:
  "\<exists>new. vectorStore (world_of (addText E s i w)) = vectorStore w @ new \<and>
     map Some new = take (length new) [text_entry E s i]"
  using addText_summary[of w E s i] by (rule ingest_summaryD) blast

lemma single_prefix:
  "map Some new = take (length new) [e] \<Longrightarrow> x \<in> set new \<Longrightarrow> e = Some x"
  by (cases new) (auto split: if_splits)

lemma catalog_metadata_invariant: "m \<in> set catalog_metadata \<Longrightarrow> metadata_invariant m"
  unfolding catalog_metadata_listed by (auto simp: metadata_invariant_def)

text \<open>
  Claim C3.  A document that \<^verbatim>\<open>addImage\<close> stores is tagged \<open>image\<close> and carries the path
  it was read from; a document that \<^verbatim>\<open>addText\<close> stores is tagged \<open>text\<close> and carries no
  path; every document that the ingestion step stores satisfies the metadata invariant.
\<close>
theorem stored_documents_metadata:
  "(\<exists>new. vectorStore (world_of (addImage E p i w)) = vectorStore w @ new \<and>
      (\<forall>x\<in>set new. mediaType (metadata (snd x)) = ''image'' \<and> path (metadata (snd x)) = Some p)) \<and>
   (\<exists>new. vectorStore (world_of (addText E s i w)) = vectorStore w @ new \<and>
      (\<forall>x\<in>set new. mediaType (metadata (snd x)) = ''text'' \<and> path (metadata (snd x)) = None)) \<and>
   (\<exists>new. vectorStore (world_of (addItemsToVectorStore E w)) = vectorStore w @ new \<and>
      (\<forall>x\<in>set new. metadata_invariant (metadata (snd x))))"
proof (intro conjI)
  from addImage_effect[of E p i w] obtain new where h:
    "vectorStore (world_of (addImage E p i w)) = vectorStore w @ new"
    "map Some new = take (length new) [image_entry E (disk w) p i]" by blast
  have "mediaType (metadata (snd x)) = ''image'' \<and> path (metadata (snd x)) = Some p"
    if "x \<in> set new" for x
    using image_entry_metadata[OF single_prefix[OF h(2) that]] by simp
  then show "\<exists>new. vectorStore (world_of (addImage E p i w)) = vectorStore w @ new \<and>
      (\<forall>x\<in>set new. mediaType (metadata (snd x)) = ''image'' \<and> path (metadata (snd x)) = Some p)"
    using h(1) by blast
next
  from addText_effect[of E s i w] obtain new where h:
    "vectorStore (world_of (addText E s i w)) = vectorStore w @ new"
    "map Some new = take (length new) [text_entry E s i]" by blast
  have "mediaType (metadata (snd x)) = ''text'' \<and> path (metadata (snd x)) = None"
    if "x \<in> set new" for x
    using text_entry_metadata[OF single_prefix[OF h(2) that]] by simp
  then show "\<exists>new. vectorStore (world_of (addText E s i w)) = vectorStore w @ new \<and>
      (\<forall>x\<in>set new. mediaType (metadata (snd x)) = ''text'' \<and> path (metadata (snd x)) = None)"
    using h(1) by blast
next
  show "\<exists>new. vectorStore (world_of (addItemsToVectorStore E w)) = vectorStore w @ new \<and>
      (\<forall>x\<in>set new. metadata_invariant (metadata (snd x)))"
  proof (cases "map_of (disk w) vectorStorePath = None")
    case False
    then show ?thesis using addItems_present[of w E] by simp
  next
    case True
    from True obtain new t where h:
      "vectorStore (world_of (addItemsToVectorStore E w)) = vectorStore w @ new"
      "length new \<le> 9" "map Some new = take (length new) (catalog_entries E (disk w))"
      by (rule addItems_absent_effect[of w E])
    have m: "map (metadata \<circ> snd) new = take (length new) catalog_metadata"
      using catalog_prefix_metadata[OF h(3) h(2)] .
    have "metadata_invariant (metadata (snd x))" if "x \<in> set new" for x
    proof -
      have "metadata (snd x) \<in> set (map (metadata \<circ> snd) new)" using that by auto
      then have "metadata (snd x) \<in> set catalog_metadata"
        unfolding m by (rule in_set_takeD)
      then show ?thesis by (rule catalog_metadata_invariant)
    qed
    then show ?thesis using h(1) by blast
  qed
qed

theorem stored_documents_metadata_witness:
  "length (vectorStore (world_of (addItemsToVectorStore far_env fresh_world))) = 9 \<and>
   metadata_invariant (metadata (snd (vectorStore (world_of (addItemsToVectorStore far_env fresh_world)) ! 0))) \<and>
   metadata_invariant (metadata (snd (vectorStore (world_of (addItemsToVectorStore far_env fresh_world)) ! 8)))"
proof -
  from stored_documents_metadata[of far_env "''images/dog.jpeg''" 0 fresh_world "''Mammals''"]
  obtain new where h:
    "vectorStore (world_of (addItemsToVectorStore far_env fresh_world)) = vectorStore fresh_world @ new"
    "\<forall>x\<in>set new. metadata_invariant (metadata (snd x))" by blast
  have l: "length (vectorStore (world_of (addItemsToVectorStore far_env fresh_world))) = 9"
    by (simp add: addItemsToVectorStore_def existsSync_def images_loop.simps texts_loop.simps
      addImage_def addText_def readFileSync_def call_embedImageQuery_def call_embedQuery_def
      addVectors_def console_log_def Let_def fresh_world_def fresh_disk_def far_env_def
      images_def texts_def vectorStorePath_def)
  have s: "vectorStore (world_of (addItemsToVectorStore far_env fresh_world)) = new"
    using h(1) by (simp add: fresh_world_def)
  have "new ! 0 \<in> set new" "new ! 8 \<in> set new" using l unfolding s by simp_all
  then show ?thesis using h(2) l unfolding s by blast
qed

lemma failing_image_events:
  "image_entry E f p i = None \<Longrightarrow>
   image_events E f p i = [ReadFile p] \<or>
   (\<exists>img. map_of f p = Some (File img) \<and> image_events E f p i = [ReadFile p, EmbedImage img])"
  by (auto simp: image_entry_def image_events_def split: option.splits node.splits sum.splits)

lemma failing_text_events:
  "text_entry E t i = None \<Longrightarrow> text_events E t i = [EmbedText t]"
  by (auto simp: text_entry_def text_events_def split: sum.splits)

text \<open>
  Claim C7.  If the k-th catalog item cannot be read or embedded, the ingestion step
  throws, and the disk is as before.  The store then holds what it held before, followed
  by the entries of the first m catalog items, for an m that is at most k.  The calls
  made are the existence check, all the calls of the first m items in catalog order,
  and the calls of item m up to the one that failed, each once: for an image that cannot
  be read the read, for an image that cannot be embedded the read and the embedding
  call, for a text the embedding call.  No other call was made: no call is repeated and
  no later item is touched.  The step stops before k only when the store refuses the
  vector of an earlier item for its dimension, and then the calls of that item end with
  the refused addition; so when the items before k can all be read and embedded and the
  exception is not the store's, the step has stopped at k with k entries stored.
\<close>
theorem ingestion_aborts_at_failure:
  assumes "map_of (disk w) vectorStorePath = None"
    and "k < 9" and "catalog_entries E (disk w) ! k = None"
  shows "\<exists>e w' new. addItemsToVectorStore E w = Throw e w' \<and>
           disk w' = disk w \<and>
           vectorStore w' = vectorStore w @ new \<and>
           map Some new = take (length new) (catalog_entries E (disk w)) \<and>
           length new \<le> k \<and>
           trace w' = trace w @ Exists vectorStorePath #
             concat (take (length new) (catalog_events E (disk w))) @
             (if catalog_entries E (disk w) ! length new = None
              then catalog_events E (disk w) ! length new
              else butlast (catalog_events E (disk w) ! length new)) \<and>
           (catalog_entries E (disk w) ! length new \<noteq> None \<longrightarrow>
              e = StoreError \<and> vectorStore w' \<noteq> [] \<and>
              length (fst (the (catalog_entries E (disk w) ! length new))) \<noteq>
                length (fst (hd (vectorStore w')))) \<and>
           ((\<forall>j<k. catalog_entries E (disk w) ! j \<noteq> None) \<and> e \<noteq> StoreError \<longrightarrow> length new = k) \<and>
           (k < 6 \<longrightarrow>
              catalog_events E (disk w) ! k = [ReadFile (images ! k)] \<or>
              (\<exists>img. map_of (disk w) (images ! k) = Some (File img) \<and>
                 catalog_events E (disk w) ! k = [ReadFile (images ! k), EmbedImage img])) \<and>
           (6 \<le> k \<longrightarrow> catalog_events E (disk w) ! k = [EmbedText (texts ! (k - 6))])"
proof -
  let ?r = "addItemsToVectorStore E w"
  from assms(1) obtain new where h:
    "vectorStore (world_of ?r) = vectorStore w @ new"
    "length new \<le> 9" "map Some new = take (length new) (catalog_entries E (disk w))"
    "returns ?r \<longleftrightarrow> length new = 9"
    "disk (world_of ?r) = disk w"
    "trace (world_of ?r) =
       trace w @ Exists vectorStorePath #
       ingest_events (catalog_events E (disk w)) (catalog_entries E (disk w)) (length new) (returns ?r)"
    "returns ?r \<or> catalog_entries E (disk w) ! length new = None \<or>
       (error_of ?r = Some StoreError \<and> vectorStore (world_of ?r) \<noteq> [] \<and>
        length (fst (the (catalog_entries E (disk w) ! length new))) \<noteq>
          length (fst (hd (vectorStore (world_of ?r)))))"
    using addItems_absent_calls[of w E] by metis
  have le: "length new \<le> k"
  proof (rule ccontr)
    assume "\<not> length new \<le> k"
    then have "k < length new" by simp
    from prefix_nth[OF h(3) this] show False using assms(3) by simp
  qed
  then have nr: "\<not> returns ?r" using h(4) assms(2) by simp
  then obtain e w' where r: "?r = Throw e w'" by (cases ?r) auto
  have t: "trace w' = trace w @ Exists vectorStorePath #
             concat (take (length new) (catalog_events E (disk w))) @
             (if catalog_entries E (disk w) ! length new = None
              then catalog_events E (disk w) ! length new
              else butlast (catalog_events E (disk w) ! length new))"
    using h(6) unfolding r by (simp add: ingest_events_def)
  have refusal: "e = StoreError \<and> vectorStore w' \<noteq> [] \<and>
              length (fst (the (catalog_entries E (disk w) ! length new))) \<noteq>
                length (fst (hd (vectorStore w')))"
    if "catalog_entries E (disk w) ! length new \<noteq> None"
    using h(7) that unfolding r by simp
  have stop: "length new = k"
    if "\<forall>j<k. catalog_entries E (disk w) ! j \<noteq> None" "e \<noteq> StoreError"
  proof -
    have "catalog_entries E (disk w) ! length new = None" using refusal that(2) by blast
    then have "\<not> length new < k" using that(1) by blast
    then show ?thesis using le by simp
  qed
  have img: "catalog_events E (disk w) ! k = [ReadFile (images ! k)] \<or>
              (\<exists>img. map_of (disk w) (images ! k) = Some (File img) \<and>
                 catalog_events E (disk w) ! k = [ReadFile (images ! k), EmbedImage img])"
    if "k < 6"
  proof -
    have "image_entry E (disk w) (images ! k) (int k) = None"
      using assms(3) that by (simp add: catalog_entries_def nth_append)
    from failing_image_events[OF this] show ?thesis
      using that by (simp add: catalog_events_def nth_append)
  qed
  have tex: "catalog_events E (disk w) ! k = [EmbedText (texts ! (k - 6))]" if "6 \<le> k"
  proof -
    have k: "k - 6 < 3" "\<not> k < 6" using that assms(2) by simp_all
    have "text_entry E (texts ! (k - 6)) (6 + int (k - 6)) = None"
      using assms(3) k by (simp add: catalog_entries_def nth_append)
    from failing_text_events[OF this] show ?thesis
      using k by (simp add: catalog_events_def nth_append)
  qed
  show ?thesis
  proof (intro exI[of _ e] exI[of _ w'] exI[of _ new] conjI impI)
    show "addItemsToVectorStore E w = Throw e w'" by (fact r)
    show "disk w' = disk w" using h(5) unfolding r by simp
    show "vectorStore w' = vectorStore w @ new" using h(1) unfolding r by simp
  qed (use h(3) le t refusal stop img tex in blast)+
qed

lemma parrot_entry: "catalog_entries far_env (disk parrot_missing) ! 2 = None"
  by (simp add: catalog_entries_def image_entry_def images_def parrot_missing_def nth_append)

lemma parrot_error:
  "error_of (addItemsToVectorStore far_env parrot_missing) = Some (ENOENT ''images/parrot.jpg'')"
  by (simp add: addItemsToVectorStore_def existsSync_def images_loop.simps
      addImage_def readFileSync_def call_embedImageQuery_def
      addVectors_def console_log_def Let_def parrot_missing_def far_env_def
      images_def vectorStorePath_def)

theorem ingestion_aborts_at_failure_witness:
  "map_of (disk parrot_missing) vectorStorePath = None \<and> (2::nat) < 9 \<and>
   catalog_entries far_env (disk parrot_missing) ! 2 = None \<and>
   \<not> returns (addItemsToVectorStore far_env parrot_missing) \<and>
   length (vectorStore (world_of (addItemsToVectorStore far_env parrot_missing))) = 2 \<and>
   trace (world_of (addItemsToVectorStore far_env parrot_missing)) =
     [Exists ''vector_store'',
      ReadFile ''images/dog.jpeg'', EmbedImage [1, 2, 3],
      AddVectors [3, 1001] \<lparr>pageContent = Some (toString_base64 [1, 2, 3]),
        metadata = \<lparr>id_md = 0, mediaType = ''image'', path = Some ''images/dog.jpeg''\<rparr>\<rparr>,
      Log ''Image images/dog.jpeg added.'',
      ReadFile ''images/cat.jpg'', EmbedImage [4, 5],
      AddVectors [2, 1004] \<lparr>pageContent = Some (toString_base64 [4, 5]),
        metadata = \<lparr>id_md = 1, mediaType = ''image'', path = Some ''images/cat.jpg''\<rparr>\<rparr>,
      Log ''Image images/cat.jpg added.'',
      ReadFile ''images/parrot.jpg'']"
proof -
  let ?r = "addItemsToVectorStore far_env parrot_missing"
  have a: "map_of (disk parrot_missing) vectorStorePath = None"
    by (simp add: parrot_missing_def vectorStorePath_def)
  have b: "(2::nat) < 9" by simp
  from ingestion_aborts_at_failure[OF a b parrot_entry] obtain e w' new where h:
    "?r = Throw e w'"
    "vectorStore w' = vectorStore parrot_missing @ new" "length new \<le> 2"
    "trace w' = trace parrot_missing @ Exists vectorStorePath #
             concat (take (length new) (catalog_events far_env (disk parrot_missing))) @
             (if catalog_entries far_env (disk parrot_missing) ! length new = None
              then catalog_events far_env (disk parrot_missing) ! length new
              else butlast (catalog_events far_env (disk parrot_missing) ! length new))"
    "(\<forall>j<2. catalog_entries far_env (disk parrot_missing) ! j \<noteq> None) \<and> e \<noteq> StoreError
       \<longrightarrow> length new = 2"
    by blast
  have e: "e = ENOENT ''images/parrot.jpg''" using parrot_error unfolding h(1) by simp
  have ok: "\<forall>j<2. catalog_entries far_env (disk parrot_missing) ! j \<noteq> None"
  proof (intro allI impI)
    fix j :: nat assume "j < 2"
    then have "j = 0 \<or> j = 1" by auto
    then show "catalog_entries far_env (disk parrot_missing) ! j \<noteq> None"
      by (auto simp: catalog_entries_def image_entry_def images_def parrot_missing_def
          far_env_def nth_append)
  qed
  have l: "length new = 2" using h(5) ok e by simp
  have s: "vectorStore parrot_missing = []" "trace parrot_missing = []"
    by (simp_all add: parrot_missing_def)
  have ev: "take 2 (catalog_events far_env (disk parrot_missing)) =
      [ [ReadFile ''images/dog.jpeg'', EmbedImage [1, 2, 3],
        AddVectors [3, 1001] \<lparr>pageContent = Some (toString_base64 [1, 2, 3]),
          metadata = \<lparr>id_md = 0, mediaType = ''image'', path = Some ''images/dog.jpeg''\<rparr>\<rparr>,
        Log ''Image images/dog.jpeg added.''],
       [ReadFile ''images/cat.jpg'', EmbedImage [4, 5],
        AddVectors [2, 1004] \<lparr>pageContent = Some (toString_base64 [4, 5]),
          metadata = \<lparr>id_md = 1, mediaType = ''image'', path = Some ''images/cat.jpg''\<rparr>\<rparr>,
        Log ''Image images/cat.jpg added.''] ]"
    "catalog_events far_env (disk parrot_missing) ! 2 = [ReadFile ''images/parrot.jpg'']"
    by (simp_all add: catalog_events_def image_events_def images_def parrot_missing_def
        far_env_def Document_def upt_rec nth_append)
  have t: "trace w' = [Exists ''vector_store'',
      ReadFile ''images/dog.jpeg'', EmbedImage [1, 2, 3],
      AddVectors [3, 1001] \<lparr>pageContent = Some (toString_base64 [1, 2, 3]),
        metadata = \<lparr>id_md = 0, mediaType = ''image'', path = Some ''images/dog.jpeg''\<rparr>\<rparr>,
      Log ''Image images/dog.jpeg added.'',
      ReadFile ''images/cat.jpg'', EmbedImage [4, 5],
      AddVectors [2, 1004] \<lparr>pageContent = Some (toString_base64 [4, 5]),
        metadata = \<lparr>id_md = 1, mediaType = ''image'', path = Some ''images/cat.jpg''\<rparr>\<rparr>,
      Log ''Image images/cat.jpg added.'',
      ReadFile ''images/parrot.jpg'']"
    using h(4) unfolding l ev s parrot_entry by (simp add: vectorStorePath_def)
  show ?thesis using a b parrot_entry h(1,2) l t s by simp
qed

subsection \<open>The last segment of a path\<close>

lemma split_nonempty: "split c s \<noteq> []"
  by (induction s) (simp_all add: Let_def)

lemma split_single: "c \<notin> set s \<Longrightarrow> split c s = [s]"
  by (induction s) (auto simp: Let_def)

lemma split_multi: "c \<in> set s \<Longrightarrow> tl (split c s) \<noteq> []"
  by (induction s) (auto simp: Let_def split_nonempty)

lemma last_split: "last (split c s) = rev (takeWhile (\<lambda>x. x \<noteq> c) (rev s))"
proof (induction s)
  case Nil
  show ?case by simp
next
  case (Cons x xs)
  show ?case
  proof (cases "x = c")
    case True
    then show ?thesis using Cons by (simp add: split_nonempty takeWhile_tail)
  next
    case False
    show ?thesis
    proof (cases "c \<in> set xs")
      case True
      then have "last ((x # hd (split c xs)) # tl (split c xs)) = last (split c xs)"
        using split_multi[OF True] split_nonempty[of c xs]
        by (cases "split c xs") auto
      moreover have "takeWhile (\<lambda>x. x \<noteq> c) (rev xs @ [x]) = takeWhile (\<lambda>x. x \<noteq> c) (rev xs)"
        using True by (intro takeWhile_append1[where x = c]) simp_all
      ultimately show ?thesis using False Cons by (simp add: Let_def)
    next
      case nin: False
      have a: "takeWhile (\<lambda>x. x \<noteq> c) (rev (x # xs)) = rev (x # xs)"
        unfolding takeWhile_eq_all_conv using nin False by auto
      have b: "last (split c (x # xs)) = x # xs"
        using False nin by (simp add: split_single Let_def)
      show ?thesis unfolding a b rev_rev_ident ..
    qed
  qed
qed

lemma pop_split: "pop (split (CHR ''/'') p) = Some (basename p)"
  by (simp add: pop_def split_nonempty last_split basename_def)

lemma basename_no_slash: "CHR ''/'' \<notin> set (basename p)"
  unfolding basename_def by (auto dest: set_takeWhileD)

lemma basename_suffix:
  "\<exists>pre. p = pre @ basename p \<and> (pre = [] \<or> last pre = CHR ''/'')"
proof -
  let ?P = "\<lambda>c. c \<noteq> CHR ''/''"
  have "rev p = takeWhile ?P (rev p) @ dropWhile ?P (rev p)" by simp
  then have "p = rev (dropWhile ?P (rev p)) @ rev (takeWhile ?P (rev p))"
    by (metis rev_append rev_rev_ident)
  moreover have "rev (dropWhile ?P (rev p)) = [] \<or> last (rev (dropWhile ?P (rev p))) = CHR ''/''"
  proof (cases "dropWhile ?P (rev p)")
    case Nil
    then show ?thesis by simp
  next
    case (Cons a as)
    then have "a = CHR ''/''" using hd_dropWhile[of ?P "rev p"] by auto
    then show ?thesis using Cons by simp
  qed
  ultimately show ?thesis unfolding basename_def by blast
qed

lemma basename_in_output:
  assumes "CHR ''/'' \<notin> set n"
  shows "basename (''output/'' @ n) = n"
proof -
  have "takeWhile (\<lambda>c. c \<noteq> CHR ''/'') (rev n @ ''/tuptuo'') =
          rev n @ takeWhile (\<lambda>c. c \<noteq> CHR ''/'') ''/tuptuo''"
    by (rule takeWhile_append2) (use assms in auto)
  then show ?thesis by (simp add: basename_def)
qed

lemma dirname_in_output:
  assumes "CHR ''/'' \<notin> set n"
  shows "dirname (''output/'' @ n) = ''output''"
proof -
  have "dropWhile (\<lambda>c. c \<noteq> CHR ''/'') (rev n @ ''/tuptuo'') =
          dropWhile (\<lambda>c. c \<noteq> CHR ''/'') ''/tuptuo''"
    by (rule dropWhile_append2) (use assms in auto)
  then show ?thesis by (simp add: dirname_def)
qed

subsection \<open>The metadata line\<close>

lemma decimal_value_snoc: "decimal_value (s @ [c]) = 10 * decimal_value s + ((of_char c :: nat) - 48)"
  by (simp add: decimal_value_def)

lemma digit_char: "d < 10 \<Longrightarrow> (of_char (char_of (48 + d)) :: nat) = 48 + d"
  by simp

lemma digits_decimal: "list_all is_digit (digits n) \<and> decimal_value (digits n) = n \<and> digits n \<noteq> []"
proof (induction n rule: digits.induct)
  case (1 n)
  show ?case
  proof (cases "n < 10")
    case True
    then have "digits n = [char_of (48 + n)]" by (subst digits.simps) simp
    then show ?thesis using True digit_char[of n]
      by (simp add: is_digit_def decimal_value_def del: of_char_of)
  next
    case False
    then have d: "digits n = digits (n div 10) @ [char_of (48 + n mod 10)]"
      by (subst digits.simps) simp
    have m: "n mod 10 < 10" by simp
    show ?thesis unfolding d using 1[OF False] digit_char[OF m]
      by (simp add: decimal_value_snoc is_digit_def del: of_char_of)
  qed
qed

lemma digits_no_leading_zero: "hd (digits n) = CHR ''0'' \<longrightarrow> n = 0"
proof (induction n rule: digits.induct)
  case (1 n)
  show ?case
  proof (cases "n < 10")
    case True
    then have d: "digits n = [char_of (48 + n)]" by (subst digits.simps) simp
    show ?thesis
    proof
      assume "hd (digits n) = CHR ''0''"
      then have "(of_char (char_of (48 + n)) :: nat) = of_char (CHR ''0'')" unfolding d by simp
      then show "n = 0" using digit_char[OF True] by simp
    qed
  next
    case False
    then have d: "digits n = digits (n div 10) @ [char_of (48 + n mod 10)]"
      by (subst digits.simps) simp
    have ne: "digits (n div 10) \<noteq> []" using digits_decimal[of "n div 10"] by simp
    show ?thesis
    proof
      assume "hd (digits n) = CHR ''0''"
      then have "hd (digits (n div 10)) = CHR ''0''" unfolding d using ne by simp
      then have "n div 10 = 0" using 1[OF False] by simp
      then show "n = 0" using False by simp
    qed
  qed
qed

lemma json_escape_plain: "plain c \<Longrightarrow> json_escape c = [c]"
  by (auto simp: json_escape_def plain_def)

lemma json_string_plain: "list_all plain s \<Longrightarrow> json_string s = [CHR 0x22] @ s @ [CHR 0x22]"
proof -
  assume "list_all plain s"
  then have "concat (map json_escape s) = s"
    by (induction s) (simp_all add: json_escape_plain)
  then show ?thesis by (simp add: json_string_def)
qed

lemma json_keys:
  "json_string ''id'' = ''\"id\"''" "json_string ''mediaType'' = ''\"mediaType\"''"
  "json_string ''path'' = ''\"path\"''"
  by (simp_all add: json_string_def json_escape_def)

lemma JSON_stringify_plain:
  assumes "list_all plain (mediaType m)" "\<forall>q. path m = Some q \<longrightarrow> list_all plain q"
  shows "JSON_stringify E m = metadata_json (show_number E (id_md m)) m"
  using assms
  by (cases "path m") (simp_all add: JSON_stringify_def metadata_json_def json_keys json_string_plain)

lemma show_number_safe:
  "0 \<le> i \<Longrightarrow> i \<le> MAX_SAFE_INTEGER \<Longrightarrow> show_number E i = digits (nat i)"
  "- MAX_SAFE_INTEGER \<le> i \<Longrightarrow> i < 0 \<Longrightarrow> show_number E i = CHR ''-'' # digits (nat (- i))"
  by (simp_all add: show_number_def show_int_def MAX_SAFE_INTEGER_def)

lemma digits_0: "digits 0 = ''0''"
  by (subst digits.simps) (simp add: char_of_def bit_0)

lemma digits_6: "digits 6 = ''6''"
  by code_simp

subsection \<open>Rendering\<close>

lemma write_string_effect:
  "trace (world_of (write_string p d w)) = trace w @ [WriteFile p (from_base64 d)]"
  "vectorStore (world_of (write_string p d w)) = vectorStore w"
  "disk (world_of (write_string p d w)) =
     (if returns (write_string p d w) then AList.update p (File (from_base64 d)) (disk w) else disk w)"
  by (auto simp: write_string_def Let_def split: option.splits node.splits)

lemma write_string_returns:
  "returns (write_string p d w) \<longleftrightarrow>
     valid_name (basename p) \<and>
     (CHR ''/'' \<in> set p \<longrightarrow> (\<exists>m. map_of (disk w) (dirname p) = Some m \<and> is_dir m)) \<and>
     (\<nexists>m. map_of (disk w) p = Some m \<and> is_dir m)"
  by (auto simp: write_string_def Let_def is_dir_def split: option.splits node.splits)

lemma writeFileSync_simps [simp]:
  "writeFileSync p None w = Throw TypeError w"
  "writeFileSync p (Some d) w = write_string p d w"
  by (simp_all add: writeFileSync_def)

lemma print_item_unfold:
  "print_item E item w =
     (if mediaType (metadata (fst item)) = ''text''
      then Return () (emit (Log (''Text: '' @ template (pageContent (fst item))))
                       (emit (Log (JSON_stringify E (metadata (fst item)))) w))
      else if mediaType (metadata (fst item)) = ''image''
      then (case path (metadata (fst item)) of
              None \<Rightarrow> Throw TypeError (emit (Log (JSON_stringify E (metadata (fst item)))) w)
            | Some p \<Rightarrow> writeFileSync (''output/'' @ basename p) (pageContent (fst item))
                         (emit (Log (JSON_stringify E (metadata (fst item)))) w))
      else Return () (emit (Log (JSON_stringify E (metadata (fst item)))) w))"
  by (simp add: print_item_def console_log_def pop_split Let_def split: option.splits)

lemma print_item_effect:
  "trace (world_of (print_item E item w)) = trace w @ rendered E item"
  "vectorStore (world_of (print_item E item w)) = vectorStore w"
  "disk (world_of (print_item E item w)) =
     (if returns (print_item E item w) then written item (disk w) else disk w)"
  by (cases "pageContent (fst item)";
      auto simp: print_item_unfold rendered_def written_def write_string_effect
        split: option.splits)+

lemma write_output_returns:
  assumes "CHR ''/'' \<notin> set n"
  shows "returns (write_string (''output/'' @ n) d w) \<longleftrightarrow>
     valid_name n \<and> (\<exists>m. map_of (disk w) ''output'' = Some m \<and> is_dir m) \<and>
     (\<nexists>m. map_of (disk w) (''output/'' @ n) = Some m \<and> is_dir m)"
  unfolding write_string_returns basename_in_output[OF assms] dirname_in_output[OF assms]
  by simp

text \<open>
  A result is rendered without an exception unless it is an image whose path or content
  is absent or whose file cannot be written.
\<close>
lemma print_item_returns:
  "returns (print_item E item w) \<longleftrightarrow>
     (mediaType (metadata (fst item)) = ''image'' \<longrightarrow>
        (\<exists>p. path (metadata (fst item)) = Some p \<and> pageContent (fst item) \<noteq> None \<and>
             valid_name (basename p) \<and>
             (\<exists>m. map_of (disk w) ''output'' = Some m \<and> is_dir m) \<and>
             (\<nexists>m. map_of (disk w) (''output/'' @ basename p) = Some m \<and> is_dir m)))"
proof (cases "mediaType (metadata (fst item)) = ''image''")
  case False
  then show ?thesis by (simp add: print_item_unfold)
next
  case True
  then have nt: "mediaType (metadata (fst item)) \<noteq> ''text''" by simp
  show ?thesis
  proof (cases "path (metadata (fst item))")
    case None
    then show ?thesis using True nt by (simp add: print_item_unfold)
  next
    case (Some p)
    show ?thesis
    proof (cases "pageContent (fst item)")
      case None
      then show ?thesis using True nt Some by (simp add: print_item_unfold)
    next
      case c: (Some c)
      have "print_item E item w = write_string (''output/'' @ basename p) c
                         (emit (Log (JSON_stringify E (metadata (fst item)))) w)"
        using True nt Some c by (simp add: print_item_unfold)
      then show ?thesis
        using True Some c write_output_returns[OF basename_no_slash[of p]] by simp
    qed
  qed
qed

lemma printResults_effect:
  "\<exists>j\<le>length rs.
     trace (world_of (printResults E rs w)) = trace w @ concat (map (rendered E) (take j rs)) \<and>
     (returns (printResults E rs w) \<longrightarrow> j = length rs)"
proof (induction rs arbitrary: w)
  case Nil
  show ?case by simp
next
  case (Cons item rs)
  show ?case
  proof (cases "print_item E item w")
    case (Throw e w1)
    have "trace w1 = trace w @ rendered E item"
      using print_item_effect(1)[of E item w] Throw by simp
    then show ?thesis using Throw by (intro exI[of _ 1]) simp
  next
    case (Return u w1)
    have t: "trace w1 = trace w @ rendered E item"
      using print_item_effect(1)[of E item w] Return by simp
    from Cons[of w1] obtain j where j: "j \<le> length rs"
      "trace (world_of (printResults E rs w1)) = trace w1 @ concat (map (rendered E) (take j rs))"
      "returns (printResults E rs w1) \<longrightarrow> j = length rs" by blast
    show ?thesis using j t Return by (intro exI[of _ "Suc j"]) simp
  qed
qed

lemma printResults_store: "vectorStore (world_of (printResults E rs w)) = vectorStore w"
proof (induction rs arbitrary: w)
  case Nil
  show ?case by simp
next
  case (Cons item rs)
  show ?case
    using print_item_effect(2)[of E item w] Cons
    by (cases "print_item E item w") simp_all
qed

lemma printResults_disk:
  "returns (printResults E rs w) \<Longrightarrow> disk (world_of (printResults E rs w)) = fold written rs (disk w)"
proof (induction rs arbitrary: w)
  case Nil
  show ?case by simp
next
  case (Cons item rs)
  then show ?case
    using print_item_effect(3)[of E item w]
    by (cases "print_item E item w") simp_all
qed

text \<open>Results that are all texts are printed without an exception and leave the disk alone.\<close>
lemma printResults_texts:
  "\<forall>item\<in>set rs. mediaType (metadata (fst item)) = ''text'' \<Longrightarrow>
   returns (printResults E rs w) \<and> disk (world_of (printResults E rs w)) = disk w"
proof (induction rs arbitrary: w)
  case Nil
  show ?case by simp
next
  case (Cons item rs)
  then show ?case by (simp add: print_item_unfold)
qed

text \<open>
  Claim C5.  \<^verbatim>\<open>printResults\<close> renders the results in their order, one after the other, up
  to the first that throws, and all of them when it returns: for each result the
  metadata line, then the content line of a text or the write of the decoded Base64
  content of an image to the output directory, under the last segment of the stored
  path.  When it returns, the disk holds these writes and nothing else has changed.  The
  metadata line is the JSON text of the object: for an identifier among the safe integers
  and strings without a character that JSON escapes, the keys \<open>id\<close>, \<open>mediaType\<close> and
  \<open>path\<close> in this order, the identifier in decimal digits, the strings between quotes.
  The digits of a number are decimal digits that denote it, without a leading zero.
\<close>
theorem printResults_renders_in_order:
  "(\<exists>j\<le>length rs.
      trace (world_of (printResults E rs w)) = trace w @ concat (map (rendered E) (take j rs)) \<and>
      (returns (printResults E rs w) \<longrightarrow> j = length rs)) \<and>
   (returns (printResults E rs w) \<longrightarrow>
      disk (world_of (printResults E rs w)) = fold written rs (disk w)) \<and>
   vectorStore (world_of (printResults E rs w)) = vectorStore w \<and>
   pop (split (CHR ''/'') p) = Some (basename p) \<and>
   CHR ''/'' \<notin> set (basename p) \<and>
   (\<exists>pre. p = pre @ basename p \<and> (pre = [] \<or> last pre = CHR ''/'')) \<and>
   (list_all plain (mediaType m) \<and> list_all plain (case path m of None \<Rightarrow> [] | Some q \<Rightarrow> q) \<longrightarrow>
      (0 \<le> id_md m \<and> id_md m \<le> MAX_SAFE_INTEGER \<longrightarrow>
         JSON_stringify E m = metadata_json (digits (nat (id_md m))) m) \<and>
      (- MAX_SAFE_INTEGER \<le> id_md m \<and> id_md m < 0 \<longrightarrow>
         JSON_stringify E m = metadata_json (CHR ''-'' # digits (nat (- id_md m))) m)) \<and>
   list_all is_digit (digits n) \<and> decimal_value (digits n) = n \<and> digits n \<noteq> [] \<and>
   (hd (digits n) = CHR ''0'' \<longrightarrow> n = 0)"
proof -
  have json: "list_all plain (mediaType m) \<and> list_all plain (case path m of None \<Rightarrow> [] | Some q \<Rightarrow> q) \<longrightarrow>
      (0 \<le> id_md m \<and> id_md m \<le> MAX_SAFE_INTEGER \<longrightarrow>
         JSON_stringify E m = metadata_json (digits (nat (id_md m))) m) \<and>
      (- MAX_SAFE_INTEGER \<le> id_md m \<and> id_md m < 0 \<longrightarrow>
         JSON_stringify E m = metadata_json (CHR ''-'' # digits (nat (- id_md m))) m)"
  proof (intro impI conjI)
    assume a: "list_all plain (mediaType m) \<and> list_all plain (case path m of None \<Rightarrow> [] | Some q \<Rightarrow> q)"
    then have b: "JSON_stringify E m = metadata_json (show_number E (id_md m)) m"
      by (intro JSON_stringify_plain) auto
    {
      assume "0 \<le> id_md m \<and> id_md m \<le> MAX_SAFE_INTEGER"
      then show "JSON_stringify E m = metadata_json (digits (nat (id_md m))) m"
        using b show_number_safe(1)[of "id_md m" E] by simp
    }
    {
      assume "- MAX_SAFE_INTEGER \<le> id_md m \<and> id_md m < 0"
      then show "JSON_stringify E m = metadata_json (CHR ''-'' # digits (nat (- id_md m))) m"
        using b show_number_safe(2)[of "id_md m" E] by simp
    }
  qed
  show ?thesis
    using printResults_effect[of rs E w] printResults_disk[of E rs w] printResults_store[of E rs w]
      pop_split[of p] basename_no_slash[of p] basename_suffix[of p] json digits_decimal[of n]
      digits_no_leading_zero[of n]
    by blast
qed

lemma basename_dog: "basename ''images/dog.jpeg'' = ''dog.jpeg''"
  by (simp add: basename_def)

theorem printResults_renders_in_order_witness:
  "returns (printResults far_env sample_results fresh_world) \<and>
   trace (world_of (printResults far_env sample_results fresh_world)) =
     [Log ''{\"id\":0,\"mediaType\":\"image\",\"path\":\"images/dog.jpeg\"}'',
      WriteFile ''output/dog.jpeg'' [1, 2, 3],
      Log ''{\"id\":6,\"mediaType\":\"text\"}'',
      Log ''Text: Dogs are domesticated mammals.''] \<and>
   map_of (disk (world_of (printResults far_env sample_results fresh_world))) ''output/dog.jpeg''
     = Some (File [1, 2, 3]) \<and>
   JSON_stringify far_env \<lparr>id_md = 6, mediaType = ''text'', path = None\<rparr> =
     ''{\"id\":6,\"mediaType\":\"text\"}'' \<and>
   decimal_value ''6'' = 6"
proof -
  have r: "returns (printResults far_env sample_results fresh_world)"
    by (simp add: sample_results_def print_item_unfold write_string_def basename_def
        dirname_def valid_name_def Let_def fresh_world_def fresh_disk_def)
  note th = printResults_renders_in_order[of sample_results far_env fresh_world "''images/dog.jpeg''"
      "\<lparr>id_md = 6, mediaType = ''text'', path = None\<rparr>" 6]
  from th r have t: "trace (world_of (printResults far_env sample_results fresh_world)) =
      trace fresh_world @ concat (map (rendered far_env) sample_results)" by auto
  from th r have d: "disk (world_of (printResults far_env sample_results fresh_world)) =
      fold written sample_results (disk fresh_world)" by blast
  have pl: "list_all plain (mediaType \<lparr>id_md = 6, mediaType = ''text'', path = None\<rparr>) \<and>
      list_all plain (case path \<lparr>id_md = 6, mediaType = ''text'', path = None\<rparr> of None \<Rightarrow> [] | Some q \<Rightarrow> q)"
    by (simp add: plain_def)
  have sf: "0 \<le> id_md \<lparr>id_md = 6, mediaType = ''text'', path = None\<rparr> \<and>
      id_md \<lparr>id_md = 6, mediaType = ''text'', path = None\<rparr> \<le> MAX_SAFE_INTEGER"
    by (simp add: MAX_SAFE_INTEGER_def)
  from th pl sf have "JSON_stringify far_env \<lparr>id_md = 6, mediaType = ''text'', path = None\<rparr> =
      metadata_json (digits (nat (id_md \<lparr>id_md = 6, mediaType = ''text'', path = None\<rparr>)))
        \<lparr>id_md = 6, mediaType = ''text'', path = None\<rparr>" by blast
  then have j: "JSON_stringify far_env \<lparr>id_md = 6, mediaType = ''text'', path = None\<rparr> =
     ''{\"id\":6,\"mediaType\":\"text\"}''"
    by (simp add: metadata_json_def digits_6)
  from th have "decimal_value (digits 6) = 6" by blast
  then have dv: "decimal_value ''6'' = 6" by (simp add: digits_6)
  have j0: "JSON_stringify far_env \<lparr>id_md = 0, mediaType = ''image'', path = Some ''images/dog.jpeg''\<rparr>
     = ''{\"id\":0,\"mediaType\":\"image\",\"path\":\"images/dog.jpeg\"}''"
    by (simp add: JSON_stringify_def json_string_def json_escape_def show_number_def
        show_int_def MAX_SAFE_INTEGER_def digits_0)
  have t': "trace fresh_world @ concat (map (rendered far_env) sample_results) =
     [Log ''{\"id\":0,\"mediaType\":\"image\",\"path\":\"images/dog.jpeg\"}'',
      WriteFile ''output/dog.jpeg'' [1, 2, 3],
      Log ''{\"id\":6,\"mediaType\":\"text\"}'',
      Log ''Text: Dogs are domesticated mammals.'']"
    by (simp add: sample_results_def rendered_def fresh_world_def basename_dog
        from_base64_toString j j0)
  have d': "map_of (fold written sample_results (disk fresh_world)) ''output/dog.jpeg''
      = Some (File [1, 2, 3])"
    by (simp add: sample_results_def written_def fresh_world_def basename_dog
        from_base64_toString update_conv')
  show ?thesis using r t d t' d' j dv by simp
qed

subsection \<open>The searches\<close>

lemma rendered_query_events: "list_all query_event (rendered E item)"
  by (simp add: rendered_def split: option.splits)

lemma printResults_query_events:
  "\<exists>t. trace (world_of (printResults E rs w)) = trace w @ t \<and> list_all query_event t"
proof -
  from printResults_effect[of rs E w] obtain j where
    "trace (world_of (printResults E rs w)) = trace w @ concat (map (rendered E) (take j rs))" by blast
  moreover have "list_all query_event (concat (map (rendered E) (take j rs)))"
    by (simp add: list_all_iff) (metis list_all_iff rendered_query_events)
  ultimately show ?thesis by blast
qed

lemma search_cases:
  "(similaritySearchVectorWithScore q k w = Return (nearest (vectorStore w) q k) (emit (Search q k) w) \<and>
      vectorStore w \<noteq> []) \<or>
   similaritySearchVectorWithScore q k w = Throw StoreError (emit (Search q k) w)"
  by (auto simp: similaritySearchVectorWithScore_def Let_def split: list.splits)

text \<open>What the text search does after a successful clearing.\<close>
lemma text_query_cleared:
  assumes "clearDirectory ''output'' w = Return u w1"
  shows "textSimilaritySearch E t k w =
     andThen (call_embedQuery E t (emit (Log ''Performing text similarity search.'') w1))
       (\<lambda>qv w3. andThen (similaritySearchVectorWithScore qv k w3)
          (\<lambda>res w4. printResults E res
             (emit (Log (''Similarity search results for text query: '' @ t)) w4)))"
  by (simp add: textSimilaritySearch_def assms console_log_def)

lemma image_query_cleared:
  assumes "clearDirectory ''output'' w = Return u w1"
  shows "imageSimilaritySearch E p k w =
     andThen (readFileSync p (emit (Log ''Performing image similarity search.'') w1))
       (\<lambda>img w3. andThen (call_embedImageQuery E img w3)
       (\<lambda>qv w4. andThen (similaritySearchVectorWithScore qv k w4)
          (\<lambda>res w5. printResults E res
             (emit (Log (''Similarity search results for image query: '' @ p)) w5))))"
  by (simp add: imageSimilaritySearch_def assms console_log_def)

lemma tail_of_search:
  "\<exists>t. trace (world_of (andThen (similaritySearchVectorWithScore qv k w3)
          (\<lambda>res w4. printResults E res (emit (Log s) w4)))) = trace w3 @ t \<and> list_all query_event t \<and>
       vectorStore (world_of (andThen (similaritySearchVectorWithScore qv k w3)
          (\<lambda>res w4. printResults E res (emit (Log s) w4)))) = vectorStore w3"
proof -
  from search_cases[of qv k w3] show ?thesis
  proof
    assume a: "similaritySearchVectorWithScore qv k w3 =
        Return (nearest (vectorStore w3) qv k) (emit (Search qv k) w3) \<and> vectorStore w3 \<noteq> []"
    from printResults_query_events[of E "nearest (vectorStore w3) qv k" "emit (Log s) (emit (Search qv k) w3)"]
    obtain t where "trace (world_of (printResults E (nearest (vectorStore w3) qv k)
        (emit (Log s) (emit (Search qv k) w3)))) = trace (emit (Log s) (emit (Search qv k) w3)) @ t"
      "list_all query_event t" by blast
    then show ?thesis using a
      by (intro exI[of _ "Search qv k # Log s # t"]) (simp add: printResults_store)
  next
    assume "similaritySearchVectorWithScore qv k w3 = Throw StoreError (emit (Search qv k) w3)"
    then show ?thesis by (intro exI[of _ "[Search qv k]"]) simp
  qed
qed

lemma text_query_tail:
  assumes "clearDirectory ''output'' w = Return u w1"
  shows "\<exists>t. trace (world_of (textSimilaritySearch E x k w)) = trace w1 @ t \<and>
            list_all query_event t \<and>
            vectorStore (world_of (textSimilaritySearch E x k w)) = vectorStore w1"
proof (cases "embedQuery E x")
  case (Inl e)
  then show ?thesis
    unfolding text_query_cleared[OF assms]
    by (intro exI[of _ "[Log ''Performing text similarity search.'', EmbedText x]"])
       (simp add: call_embedQuery_def)
next
  case (Inr qv)
  let ?w3 = "emit (EmbedText x) (emit (Log ''Performing text similarity search.'') w1)"
  from tail_of_search[of qv k ?w3 E "''Similarity search results for text query: '' @ x"]
  obtain t where t: "trace (world_of (andThen (similaritySearchVectorWithScore qv k ?w3)
          (\<lambda>res w4. printResults E res (emit (Log (''Similarity search results for text query: '' @ x)) w4))))
        = trace ?w3 @ t" "list_all query_event t"
     "vectorStore (world_of (andThen (similaritySearchVectorWithScore qv k ?w3)
          (\<lambda>res w4. printResults E res (emit (Log (''Similarity search results for text query: '' @ x)) w4))))
        = vectorStore ?w3"
    by blast
  show ?thesis
    unfolding text_query_cleared[OF assms]
    using Inr t
    by (intro exI[of _ "Log ''Performing text similarity search.'' # EmbedText x # t"])
       (simp add: call_embedQuery_def)
qed

lemma image_query_tail:
  assumes "clearDirectory ''output'' w = Return u w1"
  shows "\<exists>t. trace (world_of (imageSimilaritySearch E p k w)) = trace w1 @ t \<and>
            list_all query_event t \<and>
            vectorStore (world_of (imageSimilaritySearch E p k w)) = vectorStore w1"
proof (cases "readFileSync p (emit (Log ''Performing image similarity search.'') w1)")
  case (Throw e w3)
  then have "w3 = emit (ReadFile p) (emit (Log ''Performing image similarity search.'') w1)"
    by (auto simp: readFileSync_def Let_def split: option.splits node.splits)
  then show ?thesis
    unfolding image_query_cleared[OF assms] using Throw
    by (intro exI[of _ "[Log ''Performing image similarity search.'', ReadFile p]"]) simp
next
  case (Return img w3)
  then have w3: "w3 = emit (ReadFile p) (emit (Log ''Performing image similarity search.'') w1)"
    by (auto simp: readFileSync_def Let_def split: option.splits node.splits)
  show ?thesis
  proof (cases "embedImageQuery E img")
    case (Inl e)
    then show ?thesis
      unfolding image_query_cleared[OF assms] using Return w3
      by (intro exI[of _ "[Log ''Performing image similarity search.'', ReadFile p, EmbedImage img]"])
         (simp add: call_embedImageQuery_def)
  next
    case (Inr qv)
    let ?w4 = "emit (EmbedImage img) w3"
    from tail_of_search[of qv k ?w4 E "''Similarity search results for image query: '' @ p"]
    obtain t where t: "trace (world_of (andThen (similaritySearchVectorWithScore qv k ?w4)
          (\<lambda>res w4. printResults E res (emit (Log (''Similarity search results for image query: '' @ p)) w4))))
        = trace ?w4 @ t" "list_all query_event t"
      "vectorStore (world_of (andThen (similaritySearchVectorWithScore qv k ?w4)
          (\<lambda>res w4. printResults E res (emit (Log (''Similarity search results for image query: '' @ p)) w4))))
        = vectorStore ?w4"
      by blast
    show ?thesis
      unfolding image_query_cleared[OF assms]
      using Inr t Return w3
      by (intro exI[of _ "Log ''Performing image similarity search.'' # ReadFile p # EmbedImage img # t"])
         (simp add: call_embedImageQuery_def)
  qed
qed

lemma query_missing_output:
  assumes "map_of (disk w) ''output'' = None"
  shows "textSimilaritySearch E t k w = Throw (ENOENT ''output'') (emit (Readdir ''output'') w)"
    and "imageSimilaritySearch E p k w = Throw (ENOENT ''output'') (emit (Readdir ''output'') w)"
  using readdirSync_missing[OF assms]
  by (simp_all add: textSimilaritySearch_def imageSimilaritySearch_def clearDirectory_def)

lemma query_throws_with_clear:
  assumes "clearDirectory ''output'' w = Throw e w1"
  shows "textSimilaritySearch E t k w = Throw e w1" "imageSimilaritySearch E p k w = Throw e w1"
  using assms by (simp_all add: textSimilaritySearch_def imageSimilaritySearch_def)

lemma query_order:
  assumes tail: "\<And>u w1. clearDirectory ''output'' w = Return u w1 \<Longrightarrow>
            \<exists>t. trace (world_of q) = trace w1 @ t \<and> list_all query_event t"
    and thr: "\<And>e w1. clearDirectory ''output'' w = Throw e w1 \<Longrightarrow> q = Throw e w1"
  shows "\<exists>j post. j \<le> length (entries (disk w) ''output'') \<and>
     trace (world_of q) =
       trace w @ Readdir ''output'' #
         map (\<lambda>n. Unlink (path_join ''output'' n)) (take j (entries (disk w) ''output'')) @ post \<and>
     list_all query_event post \<and>
     (post \<noteq> [] \<longrightarrow> returns (clearDirectory ''output'' w) \<and> j = length (entries (disk w) ''output''))"
proof -
  from clearDirectory_trace[of w "''output''"] obtain j where j:
    "j \<le> length (entries (disk w) ''output'')"
    "trace (world_of (clearDirectory ''output'' w)) =
       trace w @ Readdir ''output'' # map (\<lambda>n. Unlink (path_join ''output'' n)) (take j (entries (disk w) ''output''))"
    "returns (clearDirectory ''output'' w) \<longrightarrow> j = length (entries (disk w) ''output'')"
    by blast
  show ?thesis
  proof (cases "clearDirectory ''output'' w")
    case (Throw e w1)
    show ?thesis
      using j thr[OF Throw] Throw by (intro exI[of _ j] exI[of _ "[]"]) simp
  next
    case (Return u w1)
    from tail[OF Return] obtain t where
      "trace (world_of q) = trace w1 @ t" "list_all query_event t" by blast
    then show ?thesis
      using j Return by (intro exI[of _ j] exI[of _ t]) simp
  qed
qed

lemma text_query_texts_only:
  assumes r: "returns (textSimilaritySearch E t k w)"
    and q: "embedQuery E t = Inr qv"
    and a: "\<forall>item\<in>set (nearest (vectorStore w) qv k). mediaType (metadata (fst item)) = ''text''"
  shows "entries (disk (world_of (textSimilaritySearch E t k w))) ''output'' = []"
proof (cases "clearDirectory ''output'' w")
  case (Throw e w1)
  then show ?thesis using r query_throws_with_clear(1)[OF Throw, of E t k] by simp
next
  case (Return u w1)
  have e: "entries (disk w1) ''output'' = []" using clearDirectory_Return_empty[OF Return] .
  have s: "vectorStore w1 = vectorStore w" using clearDirectory_frame[of "''output''" w] Return by simp
  let ?w3 = "emit (EmbedText t) (emit (Log ''Performing text similarity search.'') w1)"
  let ?w5 = "emit (Log (''Similarity search results for text query: '' @ t)) (emit (Search qv k) ?w3)"
  from search_cases[of qv k ?w3] show ?thesis
  proof
    assume "similaritySearchVectorWithScore qv k ?w3 = Throw StoreError (emit (Search qv k) ?w3)"
    then show ?thesis using r unfolding text_query_cleared[OF Return]
      by (simp add: call_embedQuery_def q)
  next
    assume "similaritySearchVectorWithScore qv k ?w3 =
        Return (nearest (vectorStore ?w3) qv k) (emit (Search qv k) ?w3) \<and> vectorStore ?w3 \<noteq> []"
    then have "textSimilaritySearch E t k w = printResults E (nearest (vectorStore w) qv k) ?w5"
      unfolding text_query_cleared[OF Return] by (simp add: call_embedQuery_def q s)
    then show ?thesis
      using printResults_texts[OF a, of E ?w5] e by simp
  qed
qed

lemma image_query_texts_only:
  assumes r: "returns (imageSimilaritySearch E p k w)"
    and f: "map_of (disk w) p = Some (File img)"
    and q: "embedImageQuery E img = Inr qv"
    and a: "\<forall>item\<in>set (nearest (vectorStore w) qv k). mediaType (metadata (fst item)) = ''text''"
  shows "entries (disk (world_of (imageSimilaritySearch E p k w))) ''output'' = []"
proof (cases "clearDirectory ''output'' w")
  case (Throw e w1)
  then show ?thesis using r query_throws_with_clear(2)[OF Throw, of E p k] by simp
next
  case (Return u w1)
  have e: "entries (disk w1) ''output'' = []" using clearDirectory_Return_empty[OF Return] .
  have s: "vectorStore w1 = vectorStore w" using clearDirectory_frame[of "''output''" w] Return by simp
  have m: "map_of (disk w1) p = Some (File img) \<or> map_of (disk w1) p = None"
    using clearDirectory_removes[of "''output''" w p] Return f by auto
  let ?w2 = "emit (Log ''Performing image similarity search.'') w1"
  from m show ?thesis
  proof
    assume "map_of (disk w1) p = None"
    then have "readFileSync p ?w2 = Throw (ENOENT p) (emit (ReadFile p) ?w2)"
      by (simp add: readFileSync_def Let_def)
    then show ?thesis using r unfolding image_query_cleared[OF Return] by simp
  next
    assume "map_of (disk w1) p = Some (File img)"
    then have rd: "readFileSync p ?w2 = Return img (emit (ReadFile p) ?w2)"
      by (simp add: readFileSync_def Let_def)
    let ?w4 = "emit (EmbedImage img) (emit (ReadFile p) ?w2)"
    let ?w6 = "emit (Log (''Similarity search results for image query: '' @ p)) (emit (Search qv k) ?w4)"
    from search_cases[of qv k ?w4] show ?thesis
    proof
      assume "similaritySearchVectorWithScore qv k ?w4 = Throw StoreError (emit (Search qv k) ?w4)"
      then show ?thesis using r unfolding image_query_cleared[OF Return]
        by (simp add: rd call_embedImageQuery_def q)
    next
      assume "similaritySearchVectorWithScore qv k ?w4 =
          Return (nearest (vectorStore ?w4) qv k) (emit (Search qv k) ?w4) \<and> vectorStore ?w4 \<noteq> []"
      then have "imageSimilaritySearch E p k w = printResults E (nearest (vectorStore w) qv k) ?w6"
        unfolding image_query_cleared[OF Return] by (simp add: rd call_embedImageQuery_def q s)
      then show ?thesis
        using printResults_texts[OF a, of E ?w6] e by simp
    qed
  qed
qed

text \<open>
  Claim C4.  Either search begins by listing the output directory and unlinking its
  entries, and every other event of the search comes after the last unlink and only if
  the clearing returned.  Without an output directory the search throws at the listing:
  nothing is created, nothing is embedded or searched.  A search that returns and whose
  results are all texts leaves the output directory without entries.
\<close>
theorem query_clears_output_first:
  "(map_of (disk w) ''output'' = None \<longrightarrow>
      textSimilaritySearch E t k w = Throw (ENOENT ''output'') (emit (Readdir ''output'') w) \<and>
      imageSimilaritySearch E p k w = Throw (ENOENT ''output'') (emit (Readdir ''output'') w)) \<and>
   (\<exists>j post. j \<le> length (entries (disk w) ''output'') \<and>
      trace (world_of (textSimilaritySearch E t k w)) =
        trace w @ Readdir ''output'' #
          map (\<lambda>n. Unlink (path_join ''output'' n)) (take j (entries (disk w) ''output'')) @ post \<and>
      list_all query_event post \<and>
      (post \<noteq> [] \<longrightarrow> returns (clearDirectory ''output'' w) \<and> j = length (entries (disk w) ''output''))) \<and>
   (\<exists>j post. j \<le> length (entries (disk w) ''output'') \<and>
      trace (world_of (imageSimilaritySearch E p k w)) =
        trace w @ Readdir ''output'' #
          map (\<lambda>n. Unlink (path_join ''output'' n)) (take j (entries (disk w) ''output'')) @ post \<and>
      list_all query_event post \<and>
      (post \<noteq> [] \<longrightarrow> returns (clearDirectory ''output'' w) \<and> j = length (entries (disk w) ''output''))) \<and>
   (returns (textSimilaritySearch E t k w) \<and> embedQuery E t = Inr qv \<and>
    (\<forall>item\<in>set (nearest (vectorStore w) qv k). mediaType (metadata (fst item)) = ''text'') \<longrightarrow>
      entries (disk (world_of (textSimilaritySearch E t k w))) ''output'' = []) \<and>
   (returns (imageSimilaritySearch E p k w) \<and> map_of (disk w) p = Some (File img) \<and>
    embedImageQuery E img = Inr qi \<and>
    (\<forall>item\<in>set (nearest (vectorStore w) qi k). mediaType (metadata (fst item)) = ''text'') \<longrightarrow>
      entries (disk (world_of (imageSimilaritySearch E p k w))) ''output'' = [])"
proof (intro conjI impI)
  assume a: "map_of (disk w) ''output'' = None"
  show "textSimilaritySearch E t k w = Throw (ENOENT ''output'') (emit (Readdir ''output'') w)"
    using query_missing_output(1)[OF a] .
  show "imageSimilaritySearch E p k w = Throw (ENOENT ''output'') (emit (Readdir ''output'') w)"
    using query_missing_output(2)[OF a] .
next
  show "\<exists>j post. j \<le> length (entries (disk w) ''output'') \<and>
      trace (world_of (textSimilaritySearch E t k w)) =
        trace w @ Readdir ''output'' #
          map (\<lambda>n. Unlink (path_join ''output'' n)) (take j (entries (disk w) ''output'')) @ post \<and>
      list_all query_event post \<and>
      (post \<noteq> [] \<longrightarrow> returns (clearDirectory ''output'' w) \<and> j = length (entries (disk w) ''output''))"
  proof (rule query_order)
    fix u w1 assume "clearDirectory ''output'' w = Return u w1"
    from text_query_tail[OF this, of E t k]
    show "\<exists>ta. trace (world_of (textSimilaritySearch E t k w)) = trace w1 @ ta \<and> list_all query_event ta"
      by blast
  next
    fix e w1 assume "clearDirectory ''output'' w = Throw e w1"
    then show "textSimilaritySearch E t k w = Throw e w1" by (rule query_throws_with_clear(1))
  qed
next
  show "\<exists>j post. j \<le> length (entries (disk w) ''output'') \<and>
      trace (world_of (imageSimilaritySearch E p k w)) =
        trace w @ Readdir ''output'' #
          map (\<lambda>n. Unlink (path_join ''output'' n)) (take j (entries (disk w) ''output'')) @ post \<and>
      list_all query_event post \<and>
      (post \<noteq> [] \<longrightarrow> returns (clearDirectory ''output'' w) \<and> j = length (entries (disk w) ''output''))"
  proof (rule query_order)
    fix u w1 assume "clearDirectory ''output'' w = Return u w1"
    from image_query_tail[OF this, of E p k]
    show "\<exists>ta. trace (world_of (imageSimilaritySearch E p k w)) = trace w1 @ ta \<and> list_all query_event ta"
      by blast
  next
    fix e w1 assume "clearDirectory ''output'' w = Throw e w1"
    then show "imageSimilaritySearch E p k w = Throw e w1" by (rule query_throws_with_clear(2))
  qed
next
  assume "returns (textSimilaritySearch E t k w) \<and> embedQuery E t = Inr qv \<and>
    (\<forall>item\<in>set (nearest (vectorStore w) qv k). mediaType (metadata (fst item)) = ''text'')"
  then show "entries (disk (world_of (textSimilaritySearch E t k w))) ''output'' = []"
    using text_query_texts_only by blast
next
  assume "returns (imageSimilaritySearch E p k w) \<and> map_of (disk w) p = Some (File img) \<and>
    embedImageQuery E img = Inr qi \<and>
    (\<forall>item\<in>set (nearest (vectorStore w) qi k). mediaType (metadata (fst item)) = ''text'')"
  then show "entries (disk (world_of (imageSimilaritySearch E p k w))) ''output'' = []"
    using image_query_texts_only by blast
qed

lemmas ingest_eval =
  addItemsToVectorStore_def existsSync_def images_loop.simps texts_loop.simps
  addImage_def addText_def readFileSync_def call_embedImageQuery_def call_embedQuery_def
  addVectors_def console_log_def Let_def fresh_world_def fresh_disk_def far_env_def
  images_def texts_def vectorStorePath_def Document_def

lemmas query_eval =
  textSimilaritySearch_def clearDirectory_def readdirSync_def entries_def child_name_def
  valid_name_def path_join_def unlinkSync_def similaritySearchVectorWithScore_def nearest_def
  l2_distance_def print_item_unfold

lemma seeded_store:
  "vectorStore seeded_world =
    [([3, 1001], \<lparr>pageContent = Some (toString_base64 [1, 2, 3]),
        metadata = \<lparr>id_md = 0, mediaType = ''image'', path = Some ''images/dog.jpeg''\<rparr>\<rparr>),
     ([2, 1004], \<lparr>pageContent = Some (toString_base64 [4, 5]),
        metadata = \<lparr>id_md = 1, mediaType = ''image'', path = Some ''images/cat.jpg''\<rparr>\<rparr>),
     ([1, 1006], \<lparr>pageContent = Some (toString_base64 [6]),
        metadata = \<lparr>id_md = 2, mediaType = ''image'', path = Some ''images/parrot.jpg''\<rparr>\<rparr>),
     ([4, 1007], \<lparr>pageContent = Some (toString_base64 [7, 8, 9, 10]),
        metadata = \<lparr>id_md = 3, mediaType = ''image'', path = Some ''images/iphone.jpeg''\<rparr>\<rparr>),
     ([0, 1000], \<lparr>pageContent = None,
        metadata = \<lparr>id_md = 4, mediaType = ''image'', path = Some ''images/steve.jpeg''\<rparr>\<rparr>),
     ([3, 1255], \<lparr>pageContent = Some (toString_base64 [255, 254, 253]),
        metadata = \<lparr>id_md = 5, mediaType = ''image'', path = Some ''images/airpod.jpeg''\<rparr>\<rparr>),
     ([30, 0], \<lparr>pageContent = Some ''Dogs are domesticated mammals.'',
        metadata = \<lparr>id_md = 6, mediaType = ''text'', path = None\<rparr>\<rparr>),
     ([59, 0], \<lparr>pageContent = Some ''Apple Inc. is an American multinational technology company.'',
        metadata = \<lparr>id_md = 7, mediaType = ''text'', path = None\<rparr>\<rparr>),
     ([82, 0], \<lparr>pageContent = Some ''Steve Jobs was the chairman, chief executive officer, and co-founder of Apple Inc.'',
        metadata = \<lparr>id_md = 8, mediaType = ''text'', path = None\<rparr>\<rparr>)]"
  by (simp add: seeded_world_def ingest_eval)

lemma seeded_nearest:
  "nearest (vectorStore seeded_world) [7, 0] 1 =
     [(\<lparr>pageContent = Some ''Dogs are domesticated mammals.'',
        metadata = \<lparr>id_md = 6, mediaType = ''text'', path = None\<rparr>\<rparr>, 529)]"
  unfolding seeded_store by (simp add: nearest_def l2_distance_def)

lemma seeded_entries: "entries (disk seeded_world) ''output'' = [''old.png'']"
  by (simp add: seeded_world_def fresh_disk_def entries_def child_name_def valid_name_def Let_def)

lemma seeded_clear:
  "clearDirectory ''output'' seeded_world =
     Return () (seeded_world\<lparr>disk := fresh_disk,
        trace := [Readdir ''output'', Unlink ''output/old.png'']\<rparr>)"
  by (simp add: clearDirectory_def readdirSync_def entries_def child_name_def valid_name_def
      path_join_def unlinkSync_def Let_def seeded_world_def fresh_disk_def emit_def)

lemma seeded_query_returns: "returns (textSimilaritySearch far_env ''Mammals'' 1 seeded_world)"
  unfolding text_query_cleared[OF seeded_clear]
  by (simp add: call_embedQuery_def far_env_def similaritySearchVectorWithScore_def Let_def
      seeded_store nearest_def l2_distance_def print_item_unfold)

theorem query_clears_output_first_witness:
  "map_of (disk no_output) ''output'' = None \<and>
   textSimilaritySearch far_env ''Mammals'' 1 no_output =
     Throw (ENOENT ''output'') (emit (Readdir ''output'') no_output) \<and>
   entries (disk seeded_world) ''output'' = [''old.png''] \<and>
   returns (textSimilaritySearch far_env ''Mammals'' 1 seeded_world) \<and>
   embedQuery far_env ''Mammals'' = Inr [7, 0] \<and>
   map (mediaType \<circ> metadata \<circ> fst) (nearest (vectorStore seeded_world) [7, 0] 1) = [''text''] \<and>
   entries (disk (world_of (textSimilaritySearch far_env ''Mammals'' 1 seeded_world))) ''output'' = []"
proof -
  have a: "map_of (disk no_output) ''output'' = None" by (simp add: no_output_def)
  have b: "textSimilaritySearch far_env ''Mammals'' 1 no_output =
     Throw (ENOENT ''output'') (emit (Readdir ''output'') no_output)"
    using query_clears_output_first[of no_output far_env "''Mammals''" 1 "''images/dog.jpeg''"] a
    by blast
  have q: "embedQuery far_env ''Mammals'' = Inr [7, 0]" by (simp add: far_env_def)
  have n: "\<forall>item\<in>set (nearest (vectorStore seeded_world) [7, 0] 1).
      mediaType (metadata (fst item)) = ''text''"
    unfolding seeded_nearest by simp
  have c: "entries (disk (world_of (textSimilaritySearch far_env ''Mammals'' 1 seeded_world))) ''output'' = []"
    using query_clears_output_first[of seeded_world far_env "''Mammals''" 1 "''images/dog.jpeg''" "[7, 0]"]
      seeded_query_returns q n by blast
  have m: "map (mediaType \<circ> metadata \<circ> fst) (nearest (vectorStore seeded_world) [7, 0] 1) = [''text'']"
    unfolding seeded_nearest by simp
  show ?thesis using a b seeded_entries seeded_query_returns q m c by blast
qed

subsection \<open>The run\<close>

lemma filter_none: "list_all P t \<Longrightarrow> (\<And>e. P e \<Longrightarrow> \<not> Q e) \<Longrightarrow> filter Q t = []"
  by (induction t) auto

lemma rendered_print_events: "list_all print_event (rendered E item)"
  by (simp add: rendered_def split: option.splits)

lemma printResults_print_events:
  "\<exists>t. trace (world_of (printResults E rs w)) = trace w @ t \<and> list_all print_event t"
proof -
  from printResults_effect[of rs E w] obtain j where
    "trace (world_of (printResults E rs w)) = trace w @ concat (map (rendered E) (take j rs))" by blast
  moreover have "list_all print_event (concat (map (rendered E) (take j rs)))"
    by (simp add: list_all_iff) (metis list_all_iff rendered_print_events)
  ultimately show ?thesis by blast
qed

lemma print_is_tail: "print_event e \<Longrightarrow> tail_event e"
  by (cases e) simp_all

lemma list_all_mono: "list_all P t \<Longrightarrow> (\<And>e. P e \<Longrightarrow> Q e) \<Longrightarrow> list_all Q t"
  by (induction t) auto

text \<open>The events of the text search after a successful clearing.\<close>
lemma text_query_tail_events:
  assumes "clearDirectory ''output'' w = Return u w1"
  shows "\<exists>post. trace (world_of (textSimilaritySearch E x k w)) =
            trace w1 @ Log ''Performing text similarity search.'' # EmbedText x # post \<and>
          list_all tail_event post \<and>
          (returns (textSimilaritySearch E x k w) \<longrightarrow>
             (\<exists>qv tp. embedQuery E x = Inr qv \<and> list_all print_event tp \<and>
                post = Search qv k # Log (''Similarity search results for text query: '' @ x) # tp))"
proof (cases "embedQuery E x")
  case (Inl e)
  then show ?thesis
    unfolding text_query_cleared[OF assms]
    by (intro exI[of _ "[]"]) (simp add: call_embedQuery_def)
next
  case (Inr qv)
  let ?w3 = "emit (EmbedText x) (emit (Log ''Performing text similarity search.'') w1)"
  let ?S = "''Similarity search results for text query: '' @ x"
  have q: "textSimilaritySearch E x k w =
      andThen (similaritySearchVectorWithScore qv k ?w3)
        (\<lambda>res w4. printResults E res (emit (Log ?S) w4))"
    unfolding text_query_cleared[OF assms] by (simp add: call_embedQuery_def Inr)
  from search_cases[of qv k ?w3] show ?thesis
  proof
    assume "similaritySearchVectorWithScore qv k ?w3 = Throw StoreError (emit (Search qv k) ?w3)"
    then show ?thesis unfolding q by (intro exI[of _ "[Search qv k]"]) simp
  next
    assume a: "similaritySearchVectorWithScore qv k ?w3 =
        Return (nearest (vectorStore ?w3) qv k) (emit (Search qv k) ?w3) \<and> vectorStore ?w3 \<noteq> []"
    let ?w5 = "emit (Log ?S) (emit (Search qv k) ?w3)"
    from printResults_print_events[of E "nearest (vectorStore ?w3) qv k" ?w5]
    obtain tp where tp: "trace (world_of (printResults E (nearest (vectorStore ?w3) qv k) ?w5)) = trace ?w5 @ tp"
      "list_all print_event tp" by blast
    have "list_all tail_event tp" using list_all_mono[OF tp(2)] print_is_tail by blast
    then show ?thesis
      unfolding q using a tp Inr
      by (intro exI[of _ "Search qv k # Log ?S # tp"]) simp
  qed
qed

lemma clear_events:
  "\<exists>tc. trace (world_of (clearDirectory d w)) = trace w @ tc \<and> list_all clear_event tc"
proof -
  from clearDirectory_trace[of w d] obtain j where
    "trace (world_of (clearDirectory d w)) =
       trace w @ Readdir d # map (\<lambda>n. Unlink (path_join d n)) (take j (entries (disk w) d))"
    by blast
  moreover have "list_all clear_event (Readdir d # map (\<lambda>n. Unlink (path_join d n)) (take j (entries (disk w) d)))"
    by (simp add: list_all_iff)
  ultimately show ?thesis by blast
qed

text \<open>
  The text search, whatever its outcome: the clearing events, then nothing, or the
  console line and the embedding call followed by search and rendering events.  The
  store is not touched.
\<close>
lemma text_query_summary:
  "\<exists>tc tq. trace (world_of (textSimilaritySearch E x k w)) = trace w @ tc @ tq \<and>
      list_all clear_event tc \<and>
      (tq = [] \<or> (\<exists>post. tq = Log ''Performing text similarity search.'' # EmbedText x # post \<and>
                        list_all tail_event post)) \<and>
      (returns (textSimilaritySearch E x k w) \<longrightarrow>
         (\<exists>qv tp. embedQuery E x = Inr qv \<and> list_all print_event tp \<and>
            tq = Log ''Performing text similarity search.'' # EmbedText x # Search qv k #
                 Log (''Similarity search results for text query: '' @ x) # tp)) \<and>
      vectorStore (world_of (textSimilaritySearch E x k w)) = vectorStore w"
proof -
  from clear_events[of "''output''" w] obtain tc where tc:
    "trace (world_of (clearDirectory ''output'' w)) = trace w @ tc" "list_all clear_event tc"
    by blast
  have s: "vectorStore (world_of (clearDirectory ''output'' w)) = vectorStore w"
    by (rule clearDirectory_frame)
  show ?thesis
  proof (cases "clearDirectory ''output'' w")
    case (Throw e w1)
    then show ?thesis
      using tc s query_throws_with_clear(1)[OF Throw, of E x k]
      by (intro exI[of _ tc] exI[of _ "[]"]) simp
  next
    case (Return u w1)
    from text_query_tail_events[OF Return, of E x k] obtain post where post:
      "trace (world_of (textSimilaritySearch E x k w)) =
            trace w1 @ Log ''Performing text similarity search.'' # EmbedText x # post"
      "list_all tail_event post"
      "returns (textSimilaritySearch E x k w) \<longrightarrow>
             (\<exists>qv tp. embedQuery E x = Inr qv \<and> list_all print_event tp \<and>
                post = Search qv k # Log (''Similarity search results for text query: '' @ x) # tp)"
      by blast
    from text_query_tail[OF Return, of E x k]
    have v: "vectorStore (world_of (textSimilaritySearch E x k w)) = vectorStore w1" by blast
    show ?thesis
      using tc s Return post v
      by (intro exI[of _ tc] exI[of _ "Log ''Performing text similarity search.'' # EmbedText x # post"])
         auto
  qed
qed

lemma save_effect:
  "trace (world_of (FaissStore_save p w)) = trace w @ [Save p]"
  "vectorStore (world_of (FaissStore_save p w)) = vectorStore w"
  "returns (FaissStore_save p w) \<Longrightarrow>
     disk (world_of (FaissStore_save p w)) = AList.update p (StoreDir (vectorStore w)) (disk w)"
  by (auto simp: FaissStore_save_def Let_def split: option.splits node.splits)

lemma init_absent:
  "map_of f vectorStorePath = None \<Longrightarrow>
   init_vectorStore (initial_world f) =
     Return () \<lparr>disk = f, vectorStore = [], trace = [Exists vectorStorePath]\<rparr>"
  by (simp add: init_vectorStore_def initial_world_def existsSync_def emit_def)

lemma init_store:
  "map_of f vectorStorePath = Some (StoreDir s) \<Longrightarrow>
   init_vectorStore (initial_world f) =
     Return () \<lparr>disk = f, vectorStore = s, trace = [Exists vectorStorePath, Load vectorStorePath]\<rparr>"
  by (simp add: init_vectorStore_def initial_world_def existsSync_def FaissStore_load_def emit_def)

lemma init_corrupt:
  "map_of f vectorStorePath = Some n \<Longrightarrow> \<nexists>s. n = StoreDir s \<Longrightarrow>
   \<exists>e. init_vectorStore (initial_world f) =
     Throw e \<lparr>disk = f, vectorStore = [], trace = [Exists vectorStorePath, Load vectorStorePath]\<rparr>"
  by (cases n)
     (simp_all add: init_vectorStore_def initial_world_def existsSync_def FaissStore_load_def emit_def)

lemma main_body: "main E f = andThen (init_vectorStore (initial_world f)) (\<lambda>u w1. body E w1)"
  by (simp add: main_def)

text \<open>The ingestion step, whether it ingests or skips.\<close>
lemma addItems_effect:
  obtains new ti where
    "disk (world_of (addItemsToVectorStore E w)) = disk w"
    "vectorStore (world_of (addItemsToVectorStore E w)) = vectorStore w @ new"
    "trace (world_of (addItemsToVectorStore E w)) = trace w @ Exists vectorStorePath # ti"
    "list_all ingest_event ti"
    "map_of (disk w) vectorStorePath \<noteq> None \<longrightarrow>
       ti = [] \<and> new = [] \<and> returns (addItemsToVectorStore E w)"
    "map_of (disk w) vectorStorePath = None \<longrightarrow>
       map Some new = take (length new) (catalog_entries E (disk w)) \<and> length new \<le> 9 \<and>
       (returns (addItemsToVectorStore E w) \<longleftrightarrow> length new = 9)"
proof (cases "map_of (disk w) vectorStorePath = None")
  case True
  from True obtain new t where
    "disk (world_of (addItemsToVectorStore E w)) = disk w"
    "vectorStore (world_of (addItemsToVectorStore E w)) = vectorStore w @ new"
    "trace (world_of (addItemsToVectorStore E w)) = trace w @ Exists vectorStorePath # t"
    "length new \<le> 9" "map Some new = take (length new) (catalog_entries E (disk w))"
    "returns (addItemsToVectorStore E w) \<longleftrightarrow> length new = 9" "list_all ingest_event t"
    by (rule addItems_absent_effect[of w E])
  then show ?thesis using True by (intro that[of new t]) simp_all
next
  case False
  show ?thesis using False addItems_present[OF False, of E] by (intro that[of "[]" "[]"]) simp_all
qed

text \<open>
  The run from an initialised store handle, whatever its outcome: the existence check
  and the ingestion events, then the events of the one text search, then the save.
\<close>
lemma body_effect:
  obtains new ti tc tq ts where
    "vectorStore (world_of (body E w)) = vectorStore w @ new"
    "trace (world_of (body E w)) = trace w @ Exists vectorStorePath # ti @ tc @ tq @ ts"
    "list_all ingest_event ti" "list_all clear_event tc"
    "tq = [] \<or> (\<exists>post. tq = Log ''Performing text similarity search.'' # EmbedText ''Mammals'' # post \<and>
                        list_all tail_event post)"
    "ts = [] \<or> ts = [Save vectorStorePath]"
    "map_of (disk w) vectorStorePath \<noteq> None \<longrightarrow> ti = [] \<and> new = []"
    "map_of (disk w) vectorStorePath = None \<longrightarrow>
       map Some new = take (length new) (catalog_entries E (disk w)) \<and> length new \<le> 9"
    "returns (body E w) \<longrightarrow>
       ts = [Save vectorStorePath] \<and>
       (\<exists>qv tp. embedQuery E ''Mammals'' = Inr qv \<and> list_all print_event tp \<and>
          tq = Log ''Performing text similarity search.'' # EmbedText ''Mammals'' # Search qv 1 #
               Log ''Similarity search results for text query: Mammals'' # tp) \<and>
       (map_of (disk w) vectorStorePath = None \<longrightarrow> length new = 9) \<and>
       map_of (disk (world_of (body E w))) vectorStorePath = Some (StoreDir (vectorStore w @ new))"
proof -
  obtain new ti where i:
    "disk (world_of (addItemsToVectorStore E w)) = disk w"
    "vectorStore (world_of (addItemsToVectorStore E w)) = vectorStore w @ new"
    "trace (world_of (addItemsToVectorStore E w)) = trace w @ Exists vectorStorePath # ti"
    "list_all ingest_event ti"
    "map_of (disk w) vectorStorePath \<noteq> None \<longrightarrow>
       ti = [] \<and> new = [] \<and> returns (addItemsToVectorStore E w)"
    "map_of (disk w) vectorStorePath = None \<longrightarrow>
       map Some new = take (length new) (catalog_entries E (disk w)) \<and> length new \<le> 9 \<and>
       (returns (addItemsToVectorStore E w) \<longleftrightarrow> length new = 9)"
    by (rule addItems_effect[of E w])
  show ?thesis
  proof (cases "addItemsToVectorStore E w")
    case (Throw e w2)
    then have b: "body E w = Throw e w2" by (simp add: body_def)
    show ?thesis
      using i Throw
      by (intro that[of new ti "[]" "[]" "[]"]) (simp_all add: b)
  next
    case (Return u w2)
    let ?q = "textSimilaritySearch E ''Mammals'' 1 w2"
    have b: "body E w = andThen ?q (\<lambda>u w3. FaissStore_save vectorStorePath w3)"
      using Return by (simp add: body_def)
    have w2: "vectorStore w2 = vectorStore w @ new"
      "trace w2 = trace w @ Exists vectorStorePath # ti"
      "map_of (disk w) vectorStorePath = None \<longrightarrow> length new = 9"
      using i Return by simp_all
    from text_query_summary[of E "''Mammals''" 1 w2] obtain tc tq where q:
      "trace (world_of ?q) = trace w2 @ tc @ tq"
      "list_all clear_event tc"
      "tq = [] \<or> (\<exists>post. tq = Log ''Performing text similarity search.'' # EmbedText ''Mammals'' # post \<and>
                        list_all tail_event post)"
      "returns ?q \<longrightarrow>
         (\<exists>qv tp. embedQuery E ''Mammals'' = Inr qv \<and> list_all print_event tp \<and>
            tq = Log ''Performing text similarity search.'' # EmbedText ''Mammals'' # Search qv 1 #
                 Log (''Similarity search results for text query: '' @ ''Mammals'') # tp)"
      "vectorStore (world_of ?q) = vectorStore w2"
      by blast
    show ?thesis
    proof (cases ?q)
      case (Throw e w3)
      then have b': "body E w = Throw e w3" unfolding b by simp
      show ?thesis
        using i(4,5,6) w2 q(1,2,3,5) Throw
        by (intro that[of new ti tc tq "[]"]) (simp_all add: b')
    next
      case r3: (Return u3 w3)
      have b': "body E w = FaissStore_save vectorStorePath w3" unfolding b r3 by simp
      have w3: "vectorStore w3 = vectorStore w @ new"
        "trace w3 = trace w @ Exists vectorStorePath # ti @ tc @ tq"
        using q(1,5) w2 r3 by simp_all
      have t: "\<exists>qv tp. embedQuery E ''Mammals'' = Inr qv \<and> list_all print_event tp \<and>
            tq = Log ''Performing text similarity search.'' # EmbedText ''Mammals'' # Search qv 1 #
                 Log ''Similarity search results for text query: Mammals'' # tp"
        using q(4) r3 by simp
      have d: "returns (body E w) \<longrightarrow>
          map_of (disk (world_of (body E w))) vectorStorePath = Some (StoreDir (vectorStore w @ new))"
        unfolding b' using save_effect(3)[of vectorStorePath w3] w3(1) by (simp add: update_conv')
      show ?thesis
      proof (rule that[of new ti tc tq "[Save vectorStorePath]"])
        show "vectorStore (world_of (body E w)) = vectorStore w @ new"
          unfolding b' using save_effect(2)[of vectorStorePath w3] w3(1) by simp
        show "trace (world_of (body E w)) =
            trace w @ Exists vectorStorePath # ti @ tc @ tq @ [Save vectorStorePath]"
          unfolding b' using save_effect(1)[of vectorStorePath w3] w3(2) by simp
        show "returns (body E w) \<longrightarrow>
           [Save vectorStorePath] = [Save vectorStorePath] \<and>
           (\<exists>qv tp. embedQuery E ''Mammals'' = Inr qv \<and> list_all print_event tp \<and>
              tq = Log ''Performing text similarity search.'' # EmbedText ''Mammals'' # Search qv 1 #
                   Log ''Similarity search results for text query: Mammals'' # tp) \<and>
           (map_of (disk w) vectorStorePath = None \<longrightarrow> length new = 9) \<and>
           map_of (disk (world_of (body E w))) vectorStorePath = Some (StoreDir (vectorStore w @ new))"
          using t w2(3) d by blast
      qed (use i(4,5,6) q(2,3) in simp_all)
    qed
  qed
qed

lemma not_in_class: "list_all P t \<Longrightarrow> \<not> P e \<Longrightarrow> e \<notin> set t"
  by (auto simp: list_all_iff)

lemma class_filters:
  "list_all ingest_event t \<Longrightarrow> filter is_save t = [] \<and> filter is_search t = []"
  "list_all clear_event t \<Longrightarrow> filter is_save t = [] \<and> filter is_search t = [] \<and>
     filter is_embed t = [] \<and> filter is_add t = []"
  "list_all print_event t \<Longrightarrow> filter is_save t = [] \<and> filter is_search t = []"
  "list_all tail_event t \<Longrightarrow> filter is_save t = [] \<and> filter is_embed t = [] \<and> filter is_add t = []"
proof -
  have a: "ingest_event e \<Longrightarrow> \<not> is_save e \<and> \<not> is_search e" for e by (cases e) simp_all
  have b: "clear_event e \<Longrightarrow> \<not> is_save e \<and> \<not> is_search e \<and> \<not> is_embed e \<and> \<not> is_add e" for e
    by (cases e) simp_all
  have c: "print_event e \<Longrightarrow> \<not> is_save e \<and> \<not> is_search e" for e by (cases e) simp_all
  have d: "tail_event e \<Longrightarrow> \<not> is_save e \<and> \<not> is_embed e \<and> \<not> is_add e" for e by (cases e) simp_all
  show "list_all ingest_event t \<Longrightarrow> filter is_save t = [] \<and> filter is_search t = []"
    using a by (simp add: filter_none[of ingest_event])
  show "list_all clear_event t \<Longrightarrow> filter is_save t = [] \<and> filter is_search t = [] \<and>
     filter is_embed t = [] \<and> filter is_add t = []"
    using b by (simp add: filter_none[of clear_event])
  show "list_all print_event t \<Longrightarrow> filter is_save t = [] \<and> filter is_search t = []"
    using c by (simp add: filter_none[of print_event])
  show "list_all tail_event t \<Longrightarrow> filter is_save t = [] \<and> filter is_embed t = [] \<and> filter is_add t = []"
    using d by (simp add: filter_none[of tail_event])
qed

text \<open>The store handle is initialised, or the run ends at the load.\<close>
lemma main_cases:
  obtains (fresh) "map_of f vectorStorePath = None"
      "main E f = body E \<lparr>disk = f, vectorStore = [], trace = [Exists vectorStorePath]\<rparr>"
    | (loaded) s where "map_of f vectorStorePath = Some (StoreDir s)"
      "main E f = body E \<lparr>disk = f, vectorStore = s,
                           trace = [Exists vectorStorePath, Load vectorStorePath]\<rparr>"
    | (corrupt) n e where "map_of f vectorStorePath = Some n" "\<nexists>s. n = StoreDir s"
      "main E f = Throw e \<lparr>disk = f, vectorStore = [],
                            trace = [Exists vectorStorePath, Load vectorStorePath]\<rparr>"
proof (cases "map_of f vectorStorePath")
  case None
  then show ?thesis using fresh init_absent[OF None] by (simp add: main_body)
next
  case (Some n)
  show ?thesis
  proof (cases "\<exists>s. n = StoreDir s")
    case True
    then obtain s where "n = StoreDir s" by blast
    then show ?thesis using loaded[of s] init_store[of f s] Some by (simp add: main_body)
  next
    case False
    then obtain e where "init_vectorStore (initial_world f) =
        Throw e \<lparr>disk = f, vectorStore = [], trace = [Exists vectorStorePath, Load vectorStorePath]\<rparr>"
      using init_corrupt[OF Some] by blast
    then show ?thesis using corrupt[OF Some False, of e] by (simp add: main_body)
  qed
qed

text \<open>
  Claim C6.  The events of a run that returns are, in this order: the existence check of
  the store handle and the load if the store exists; the existence check of the
  ingestion step and its events; the clearing of the output directory; the one text
  search, for the query \<open>Mammals\<close> with K = 1, and the rendering of its results; the
  save.  The search and the save occur once each, the save last, and the saved store is
  the store the run ended with.
\<close>
theorem run_order:
  assumes "returns (main E f)"
  shows "\<exists>ld ti tc qv tp.
     trace (world_of (main E f)) =
       Exists vectorStorePath # ld @ Exists vectorStorePath # ti @ tc @
       [Log ''Performing text similarity search.'', EmbedText ''Mammals'', Search qv 1,
        Log ''Similarity search results for text query: Mammals''] @ tp @ [Save vectorStorePath] \<and>
     (ld = [] \<or> ld = [Load vectorStorePath]) \<and>
     list_all ingest_event ti \<and> list_all clear_event tc \<and> list_all print_event tp \<and>
     embedQuery E ''Mammals'' = Inr qv \<and>
     filter is_search (trace (world_of (main E f))) = [Search qv 1] \<and>
     filter is_save (trace (world_of (main E f))) = [Save vectorStorePath] \<and>
     last (trace (world_of (main E f))) = Save vectorStorePath \<and>
     map_of (disk (world_of (main E f))) vectorStorePath =
       Some (StoreDir (vectorStore (world_of (main E f))))"
proof -
  have run: "\<exists>ti tc qv tp.
     trace (world_of (body E w)) =
       trace w @ Exists vectorStorePath # ti @ tc @
       [Log ''Performing text similarity search.'', EmbedText ''Mammals'', Search qv 1,
        Log ''Similarity search results for text query: Mammals''] @ tp @ [Save vectorStorePath] \<and>
     list_all ingest_event ti \<and> list_all clear_event tc \<and> list_all print_event tp \<and>
     embedQuery E ''Mammals'' = Inr qv \<and>
     map_of (disk (world_of (body E w))) vectorStorePath =
       Some (StoreDir (vectorStore (world_of (body E w))))"
    if r: "returns (body E w)" for w
  proof -
    obtain new ti tc tq ts where h:
      "vectorStore (world_of (body E w)) = vectorStore w @ new"
      "trace (world_of (body E w)) = trace w @ Exists vectorStorePath # ti @ tc @ tq @ ts"
      "list_all ingest_event ti" "list_all clear_event tc"
      "returns (body E w) \<longrightarrow>
         ts = [Save vectorStorePath] \<and>
         (\<exists>qv tp. embedQuery E ''Mammals'' = Inr qv \<and> list_all print_event tp \<and>
            tq = Log ''Performing text similarity search.'' # EmbedText ''Mammals'' # Search qv 1 #
                 Log ''Similarity search results for text query: Mammals'' # tp) \<and>
         (map_of (disk w) vectorStorePath = None \<longrightarrow> length new = 9) \<and>
         map_of (disk (world_of (body E w))) vectorStorePath = Some (StoreDir (vectorStore w @ new))"
      by (rule body_effect[of E w])
    from h(5) r obtain qv tp where q:
      "ts = [Save vectorStorePath]" "embedQuery E ''Mammals'' = Inr qv" "list_all print_event tp"
      "tq = Log ''Performing text similarity search.'' # EmbedText ''Mammals'' # Search qv 1 #
                 Log ''Similarity search results for text query: Mammals'' # tp"
      "map_of (disk (world_of (body E w))) vectorStorePath = Some (StoreDir (vectorStore w @ new))"
      by blast
    show ?thesis
      using h(1,2,3,4) q by (intro exI[of _ ti] exI[of _ tc] exI[of _ qv] exI[of _ tp]) simp
  qed
  have fin: ?thesis
    if m: "main E f = body E w" and t: "trace w = Exists vectorStorePath # ld"
      and l: "ld = [] \<or> ld = [Load vectorStorePath]" for w ld
  proof -
    from run[of w] assms m obtain ti tc qv tp where h:
      "trace (world_of (main E f)) =
         trace w @ Exists vectorStorePath # ti @ tc @
         [Log ''Performing text similarity search.'', EmbedText ''Mammals'', Search qv 1,
          Log ''Similarity search results for text query: Mammals''] @ tp @ [Save vectorStorePath]"
      "list_all ingest_event ti" "list_all clear_event tc" "list_all print_event tp"
      "embedQuery E ''Mammals'' = Inr qv"
      "map_of (disk (world_of (main E f))) vectorStorePath =
         Some (StoreDir (vectorStore (world_of (main E f))))"
      by auto
    note f = class_filters(1)[OF h(2)] class_filters(2)[OF h(3)] class_filters(3)[OF h(4)]
    have s1: "filter is_search (trace (world_of (main E f))) = [Search qv 1]"
      unfolding h(1) t using f l by auto
    have s2: "filter is_save (trace (world_of (main E f))) = [Save vectorStorePath]"
      unfolding h(1) t using f l by auto
    have s3: "last (trace (world_of (main E f))) = Save vectorStorePath"
      unfolding h(1) by simp
    show ?thesis
      using h s1 s2 s3 l unfolding t
      by (intro exI[of _ ld] exI[of _ ti] exI[of _ tc] exI[of _ qv] exI[of _ tp]) simp
  qed
  show ?thesis
  proof (cases rule: main_cases[of f E])
    case fresh
    show ?thesis by (rule fin[OF fresh(2), of "[]"]) simp_all
  next
    case (loaded s)
    show ?thesis by (rule fin[OF loaded(2), of "[Load vectorStorePath]"]) simp_all
  next
    case (corrupt n e)
    then show ?thesis using assms by simp
  qed
qed

lemma fresh_run_returns: "returns (main far_env fresh_disk)"
  by (simp add: main_def body_def init_vectorStore_def initial_world_def FaissStore_save_def
      ingest_eval query_eval emit_def)

theorem run_order_witness:
  "returns (main far_env fresh_disk) \<and>
   filter is_search (trace (world_of (main far_env fresh_disk))) = [Search [7, 0] 1] \<and>
   filter is_save (trace (world_of (main far_env fresh_disk))) = [Save vectorStorePath] \<and>
   last (trace (world_of (main far_env fresh_disk))) = Save vectorStorePath \<and>
   map_of (disk (world_of (main far_env fresh_disk))) vectorStorePath =
     Some (StoreDir (vectorStore (world_of (main far_env fresh_disk))))"
proof -
  from run_order[OF fresh_run_returns] obtain qv where h:
    "embedQuery far_env ''Mammals'' = Inr qv"
    "filter is_search (trace (world_of (main far_env fresh_disk))) = [Search qv 1]"
    "filter is_save (trace (world_of (main far_env fresh_disk))) = [Save vectorStorePath]"
    "last (trace (world_of (main far_env fresh_disk))) = Save vectorStorePath"
    "map_of (disk (world_of (main far_env fresh_disk))) vectorStorePath =
       Some (StoreDir (vectorStore (world_of (main far_env fresh_disk))))"
    by blast
  have "qv = [7, 0]" using h(1) by (simp add: far_env_def)
  then show ?thesis using fresh_run_returns h by blast
qed

text \<open>A run on an existing store adds nothing and embeds nothing but the query.\<close>
lemma present_run:
  assumes "map_of f vectorStorePath \<noteq> None"
  shows "add_calls (trace (world_of (main E f))) = 0"
    and "filter is_embed (trace (world_of (main E f))) = [] \<or>
         filter is_embed (trace (world_of (main E f))) = [EmbedText ''Mammals'']"
    and "map_of f vectorStorePath = Some (StoreDir s) \<Longrightarrow> vectorStore (world_of (main E f)) = s"
    and "\<exists>t. trace (world_of (main E f)) = Exists vectorStorePath # Load vectorStorePath # t"
proof -
  have "add_calls (trace (world_of (main E f))) = 0 \<and>
    (filter is_embed (trace (world_of (main E f))) = [] \<or>
         filter is_embed (trace (world_of (main E f))) = [EmbedText ''Mammals'']) \<and>
    (\<forall>s. map_of f vectorStorePath = Some (StoreDir s) \<longrightarrow> vectorStore (world_of (main E f)) = s) \<and>
    (\<exists>t. trace (world_of (main E f)) = Exists vectorStorePath # Load vectorStorePath # t)"
  proof (cases rule: main_cases[of f E])
    case fresh
    then show ?thesis using assms by simp
  next
    case (corrupt n e)
    then show ?thesis by (simp add: add_calls_def)
  next
    case (loaded s)
    let ?w = "\<lparr>disk = f, vectorStore = s, trace = [Exists vectorStorePath, Load vectorStorePath]\<rparr>"
    obtain new ti tc tq ts where h:
      "vectorStore (world_of (body E ?w)) = vectorStore ?w @ new"
      "trace (world_of (body E ?w)) = trace ?w @ Exists vectorStorePath # ti @ tc @ tq @ ts"
      "list_all clear_event tc"
      "tq = [] \<or> (\<exists>post. tq = Log ''Performing text similarity search.'' # EmbedText ''Mammals'' # post \<and>
                        list_all tail_event post)"
      "ts = [] \<or> ts = [Save vectorStorePath]"
      "map_of (disk ?w) vectorStorePath \<noteq> None \<longrightarrow> ti = [] \<and> new = []"
      by (rule body_effect[of E ?w])
    have n: "ti = []" "new = []" using h(6) loaded(1) by simp_all
    note c = class_filters(2)[OF h(3)]
    have q: "(filter is_embed tq = [] \<or> filter is_embed tq = [EmbedText ''Mammals'']) \<and>
        filter is_add tq = []"
      using h(4) class_filters(4) by auto
    have s: "filter is_embed ts = [] \<and> filter is_add ts = []" using h(5) by auto
    have t: "trace (world_of (main E f)) =
        [Exists vectorStorePath, Load vectorStorePath, Exists vectorStorePath] @ tc @ tq @ ts"
      unfolding loaded(2) h(2) n by simp
    have "add_calls (trace (world_of (main E f))) = 0"
      unfolding t add_calls_def using c q s by simp
    moreover have "filter is_embed (trace (world_of (main E f))) = [] \<or>
         filter is_embed (trace (world_of (main E f))) = [EmbedText ''Mammals'']"
      unfolding t using c q s by auto
    moreover have "vectorStore (world_of (main E f)) = s"
      unfolding loaded(2) h(1) n by simp
    ultimately show ?thesis using loaded(1) t by simp
  qed
  then show "add_calls (trace (world_of (main E f))) = 0"
    and "filter is_embed (trace (world_of (main E f))) = [] \<or>
         filter is_embed (trace (world_of (main E f))) = [EmbedText ''Mammals'']"
    and "map_of f vectorStorePath = Some (StoreDir s) \<Longrightarrow> vectorStore (world_of (main E f)) = s"
    and "\<exists>t. trace (world_of (main E f)) = Exists vectorStorePath # Load vectorStorePath # t"
    by blast+
qed

lemma returned_run_saved:
  assumes "returns (main E f)"
  shows "map_of (disk (world_of (main E f))) vectorStorePath =
           Some (StoreDir (vectorStore (world_of (main E f))))"
proof (cases rule: main_cases[of f E])
  case fresh
  let ?w = "\<lparr>disk = f, vectorStore = [], trace = [Exists vectorStorePath]\<rparr>"
  obtain new ti tc tq ts where h:
    "vectorStore (world_of (body E ?w)) = vectorStore ?w @ new"
    "returns (body E ?w) \<longrightarrow>
       ts = [Save vectorStorePath] \<and>
       (\<exists>qv tp. embedQuery E ''Mammals'' = Inr qv \<and> list_all print_event tp \<and>
          tq = Log ''Performing text similarity search.'' # EmbedText ''Mammals'' # Search qv 1 #
               Log ''Similarity search results for text query: Mammals'' # tp) \<and>
       (map_of (disk ?w) vectorStorePath = None \<longrightarrow> length new = 9) \<and>
       map_of (disk (world_of (body E ?w))) vectorStorePath = Some (StoreDir (vectorStore ?w @ new))"
    by (rule body_effect[of E ?w])
  then show ?thesis using assms unfolding fresh(2) by simp
next
  case (loaded s)
  let ?w = "\<lparr>disk = f, vectorStore = s, trace = [Exists vectorStorePath, Load vectorStorePath]\<rparr>"
  obtain new ti tc tq ts where h:
    "vectorStore (world_of (body E ?w)) = vectorStore ?w @ new"
    "returns (body E ?w) \<longrightarrow>
       ts = [Save vectorStorePath] \<and>
       (\<exists>qv tp. embedQuery E ''Mammals'' = Inr qv \<and> list_all print_event tp \<and>
          tq = Log ''Performing text similarity search.'' # EmbedText ''Mammals'' # Search qv 1 #
               Log ''Similarity search results for text query: Mammals'' # tp) \<and>
       (map_of (disk ?w) vectorStorePath = None \<longrightarrow> length new = 9) \<and>
       map_of (disk (world_of (body E ?w))) vectorStorePath = Some (StoreDir (vectorStore ?w @ new))"
    by (rule body_effect[of E ?w])
  then show ?thesis using assms unfolding loaded(2) by simp
next
  case (corrupt n e)
  then show ?thesis using assms by simp
qed

text \<open>A run without a store at the path never loads and stores a prefix of the catalog.\<close>
lemma absent_run:
  assumes "map_of f vectorStorePath = None"
  shows "Load vectorStorePath \<notin> set (trace (world_of (main E f)))"
    and "length (vectorStore (world_of (main E f))) \<le> 9"
    and "map Some (vectorStore (world_of (main E f))) =
           take (length (vectorStore (world_of (main E f)))) (catalog_entries E f)"
    and "returns (main E f) \<Longrightarrow> map Some (vectorStore (world_of (main E f))) = catalog_entries E f"
proof -
  let ?w = "\<lparr>disk = f, vectorStore = [], trace = [Exists vectorStorePath]\<rparr>"
  have m: "main E f = body E ?w"
    using assms by (cases rule: main_cases[of f E]) simp_all
  obtain new ti tc tq ts where h:
    "vectorStore (world_of (body E ?w)) = vectorStore ?w @ new"
    "trace (world_of (body E ?w)) = trace ?w @ Exists vectorStorePath # ti @ tc @ tq @ ts"
    "list_all ingest_event ti" "list_all clear_event tc"
    "tq = [] \<or> (\<exists>post. tq = Log ''Performing text similarity search.'' # EmbedText ''Mammals'' # post \<and>
                        list_all tail_event post)"
    "ts = [] \<or> ts = [Save vectorStorePath]"
    "map_of (disk ?w) vectorStorePath = None \<longrightarrow>
       map Some new = take (length new) (catalog_entries E (disk ?w)) \<and> length new \<le> 9"
    "returns (body E ?w) \<longrightarrow>
       ts = [Save vectorStorePath] \<and>
       (\<exists>qv tp. embedQuery E ''Mammals'' = Inr qv \<and> list_all print_event tp \<and>
          tq = Log ''Performing text similarity search.'' # EmbedText ''Mammals'' # Search qv 1 #
               Log ''Similarity search results for text query: Mammals'' # tp) \<and>
       (map_of (disk ?w) vectorStorePath = None \<longrightarrow> length new = 9) \<and>
       map_of (disk (world_of (body E ?w))) vectorStorePath = Some (StoreDir (vectorStore ?w @ new))"
    by (rule body_effect[of E ?w])
  have s: "vectorStore (world_of (main E f)) = new" unfolding m h(1) by simp
  have p: "map Some new = take (length new) (catalog_entries E f)" "length new \<le> 9"
    using h(7) assms by simp_all
  have l1: "Load vectorStorePath \<notin> set ti" using not_in_class[OF h(3)] by simp
  have l2: "Load vectorStorePath \<notin> set tc" using not_in_class[OF h(4)] by simp
  have l3: "Load vectorStorePath \<notin> set tq"
  proof (rule disjE[OF h(5)])
    assume "tq = []" then show ?thesis by simp
  next
    assume "\<exists>post. tq = Log ''Performing text similarity search.'' # EmbedText ''Mammals'' # post \<and>
                        list_all tail_event post"
    then obtain post where "tq = Log ''Performing text similarity search.'' # EmbedText ''Mammals'' # post"
      "list_all tail_event post" by blast
    then show ?thesis using not_in_class[of tail_event post "Load vectorStorePath"] by simp
  qed
  have l4: "Load vectorStorePath \<notin> set ts" using h(6) by auto
  show "Load vectorStorePath \<notin> set (trace (world_of (main E f)))"
    unfolding m h(2) using l1 l2 l3 l4 by simp
  show "length (vectorStore (world_of (main E f))) \<le> 9" unfolding s using p(2) .
  show "map Some (vectorStore (world_of (main E f))) =
           take (length (vectorStore (world_of (main E f)))) (catalog_entries E f)"
    unfolding s using p(1) .
  show "map Some (vectorStore (world_of (main E f))) = catalog_entries E f" if "returns (main E f)"
  proof -
    have "length new = 9" using h(8) that assms unfolding m by simp
    then show ?thesis unfolding s using p(1) by simp
  qed
qed

text \<open>
  Claim C2.  When the store path exists, the ingestion step returns after its existence
  check and does nothing else; the whole run then adds nothing, embeds at most the
  query, and ends with the loaded store.  A run that returns leaves the store at the
  path, so a second run from its disk adds nothing, embeds at most the query, and ends
  with the store the first run ended with.
\<close>
theorem ingestion_skipped_when_store_exists:
  "(map_of (disk w) vectorStorePath \<noteq> None \<longrightarrow>
      addItemsToVectorStore E w = Return () (emit (Exists vectorStorePath) w)) \<and>
   (map_of f vectorStorePath \<noteq> None \<longrightarrow>
      add_calls (trace (world_of (main E f))) = 0 \<and>
      (filter is_embed (trace (world_of (main E f))) = [] \<or>
       filter is_embed (trace (world_of (main E f))) = [EmbedText ''Mammals''])) \<and>
   (map_of f vectorStorePath = Some (StoreDir s) \<longrightarrow> vectorStore (world_of (main E f)) = s) \<and>
   (returns (main E f) \<longrightarrow>
      map_of (disk (world_of (main E f))) vectorStorePath \<noteq> None \<and>
      add_calls (trace (world_of (main E2 (disk (world_of (main E f)))))) = 0 \<and>
      (filter is_embed (trace (world_of (main E2 (disk (world_of (main E f)))))) = [] \<or>
       filter is_embed (trace (world_of (main E2 (disk (world_of (main E f)))))) = [EmbedText ''Mammals'']) \<and>
      vectorStore (world_of (main E2 (disk (world_of (main E f))))) = vectorStore (world_of (main E f)))"
proof (intro conjI impI)
  assume "map_of (disk w) vectorStorePath \<noteq> None"
  then show "addItemsToVectorStore E w = Return () (emit (Exists vectorStorePath) w)"
    by (rule addItems_present)
next
  assume a: "map_of f vectorStorePath \<noteq> None"
  show "add_calls (trace (world_of (main E f))) = 0" using present_run(1)[OF a] .
  show "filter is_embed (trace (world_of (main E f))) = [] \<or>
       filter is_embed (trace (world_of (main E f))) = [EmbedText ''Mammals'']"
    using present_run(2)[OF a] .
next
  assume a: "map_of f vectorStorePath = Some (StoreDir s)"
  then have "map_of f vectorStorePath \<noteq> None" by simp
  then show "vectorStore (world_of (main E f)) = s" using present_run(3) a by blast
next
  assume r: "returns (main E f)"
  let ?f = "disk (world_of (main E f))"
  have d: "map_of ?f vectorStorePath = Some (StoreDir (vectorStore (world_of (main E f))))"
    using returned_run_saved[OF r] .
  then show n: "map_of ?f vectorStorePath \<noteq> None" by simp
  show "add_calls (trace (world_of (main E2 ?f))) = 0" using present_run(1)[OF n] .
  show "filter is_embed (trace (world_of (main E2 ?f))) = [] \<or>
       filter is_embed (trace (world_of (main E2 ?f))) = [EmbedText ''Mammals'']"
    using present_run(2)[OF n] .
  show "vectorStore (world_of (main E2 ?f)) = vectorStore (world_of (main E f))"
    using present_run(3)[OF n d] .
qed

lemma stored_present: "map_of stored_disk vectorStorePath \<noteq> None"
  by (simp add: stored_disk_def vectorStorePath_def)

theorem ingestion_skipped_when_store_exists_witness:
  "map_of stored_disk vectorStorePath \<noteq> None \<and>
   add_calls (trace (world_of (main far_env stored_disk))) = 0 \<and>
   returns (main far_env fresh_disk) \<and>
   add_calls (trace (world_of (main far_env (disk (world_of (main far_env fresh_disk)))))) = 0 \<and>
   vectorStore (world_of (main far_env (disk (world_of (main far_env fresh_disk))))) =
     vectorStore (world_of (main far_env fresh_disk))"
proof -
  note a = ingestion_skipped_when_store_exists[of fresh_world far_env stored_disk "[]" far_env]
  note b = ingestion_skipped_when_store_exists[of fresh_world far_env fresh_disk "[]" far_env]
  have 1: "add_calls (trace (world_of (main far_env stored_disk))) = 0"
    using a stored_present by blast
  have 2: "add_calls (trace (world_of (main far_env (disk (world_of (main far_env fresh_disk)))))) = 0"
    "vectorStore (world_of (main far_env (disk (world_of (main far_env fresh_disk))))) =
     vectorStore (world_of (main far_env fresh_disk))"
    using b fresh_run_returns by blast+
  show ?thesis using stored_present 1 fresh_run_returns 2 by blast
qed

text \<open>After the ingestion step the run leaves the store alone, and it only adds events.\<close>
lemma body_after_ingestion:
  "vectorStore (world_of (body E w)) = vectorStore (world_of (addItemsToVectorStore E w))"
  "\<exists>t. trace (world_of (body E w)) = trace (world_of (addItemsToVectorStore E w)) @ t"
proof -
  have "vectorStore (world_of (body E w)) = vectorStore (world_of (addItemsToVectorStore E w)) \<and>
    (\<exists>t. trace (world_of (body E w)) = trace (world_of (addItemsToVectorStore E w)) @ t)"
  proof (cases "addItemsToVectorStore E w")
    case (Throw e w2)
    then show ?thesis by (simp add: body_def)
  next
    case (Return u w2)
    let ?q = "textSimilaritySearch E ''Mammals'' 1 w2"
    have b: "body E w = andThen ?q (\<lambda>u w3. FaissStore_save vectorStorePath w3)"
      using Return by (simp add: body_def)
    from text_query_summary[of E "''Mammals''" 1 w2] obtain tc tq where q:
      "trace (world_of ?q) = trace w2 @ tc @ tq" "vectorStore (world_of ?q) = vectorStore w2"
      by blast
    show ?thesis
    proof (cases ?q)
      case (Throw e w3)
      then show ?thesis using q Return unfolding b by simp
    next
      case r3: (Return u3 w3)
      have "body E w = FaissStore_save vectorStorePath w3" unfolding b r3 by simp
      then show ?thesis
        using q r3 Return save_effect(1,2)[of vectorStorePath w3] by simp
    qed
  qed
  then show "vectorStore (world_of (body E w)) = vectorStore (world_of (addItemsToVectorStore E w))"
    and "\<exists>t. trace (world_of (body E w)) = trace (world_of (addItemsToVectorStore E w)) @ t"
    by blast+
qed

text \<open>A run without a store at the path: the store is created and the ingestion step fills it.\<close>
lemma created_run:
  assumes a: "map_of f vectorStorePath = None"
  shows "init_vectorStore (initial_world f) = Return () (created f)"
    and "vectorStore (world_of (main E f)) =
           vectorStore (world_of (addItemsToVectorStore E (created f)))"
    and "\<exists>t. trace (world_of (main E f)) =
           trace (world_of (addItemsToVectorStore E (created f))) @ t"
    and "trace (world_of (addItemsToVectorStore E (created f))) =
           [Exists vectorStorePath, Exists vectorStorePath] @
           ingest_events (catalog_events E f) (catalog_entries E f)
             (length (vectorStore (world_of (main E f))))
             (returns (addItemsToVectorStore E (created f)))"
    and "returns (addItemsToVectorStore E (created f)) \<longleftrightarrow>
           length (vectorStore (world_of (main E f))) = 9"
    and "(\<forall>k<9. \<exists>v d. catalog_entries E f ! k = Some (v, d) \<and> length v = n) \<Longrightarrow>
           returns (addItemsToVectorStore E (created f))"
proof -
  show i: "init_vectorStore (initial_world f) = Return () (created f)"
    using init_absent[OF a] by (simp add: created_def)
  have m: "main E f = body E (created f)" using i by (simp add: main_body)
  show s: "vectorStore (world_of (main E f)) =
           vectorStore (world_of (addItemsToVectorStore E (created f)))"
    unfolding m by (rule body_after_ingestion(1))
  show "\<exists>t. trace (world_of (main E f)) =
           trace (world_of (addItemsToVectorStore E (created f))) @ t"
    unfolding m by (rule body_after_ingestion(2))
  have d: "map_of (disk (created f)) vectorStorePath = None" "disk (created f) = f"
    "vectorStore (created f) = []" "trace (created f) = [Exists vectorStorePath]"
    using a by (simp_all add: created_def)
  from d(1) obtain new where h:
    "vectorStore (world_of (addItemsToVectorStore E (created f))) = vectorStore (created f) @ new"
    "returns (addItemsToVectorStore E (created f)) \<longleftrightarrow> length new = 9"
    "trace (world_of (addItemsToVectorStore E (created f))) =
       trace (created f) @ Exists vectorStorePath #
       ingest_events (catalog_events E (disk (created f))) (catalog_entries E (disk (created f)))
         (length new) (returns (addItemsToVectorStore E (created f)))"
    using addItems_absent_calls[of "created f" E] by metis
  have n: "vectorStore (world_of (main E f)) = new" unfolding s h(1) d(3) by simp
  show "trace (world_of (addItemsToVectorStore E (created f))) =
           [Exists vectorStorePath, Exists vectorStorePath] @
           ingest_events (catalog_events E f) (catalog_entries E f)
             (length (vectorStore (world_of (main E f))))
             (returns (addItemsToVectorStore E (created f)))"
    using h(3) unfolding n d(2,4) by simp
  show "returns (addItemsToVectorStore E (created f)) \<longleftrightarrow>
           length (vectorStore (world_of (main E f))) = 9"
    using h(2) unfolding n .
  show "returns (addItemsToVectorStore E (created f))"
    if "\<forall>k<9. \<exists>v d. catalog_entries E f ! k = Some (v, d) \<and> length v = n"
    using ingestion_returns[OF d(1) d(3), of E n] that unfolding d(2) by simp
qed

text \<open>A run with a store at the path: the store is loaded and the ingestion step skips.\<close>
lemma loaded_run:
  assumes a: "map_of f vectorStorePath = Some (StoreDir s)"
  shows "init_vectorStore (initial_world f) = Return () (loaded f s)"
    and "addItemsToVectorStore E (loaded f s) = Return () (emit (Exists vectorStorePath) (loaded f s))"
    and "\<exists>t. trace (world_of (main E f)) =
           [Exists vectorStorePath, Load vectorStorePath, Exists vectorStorePath] @ t"
proof -
  show i: "init_vectorStore (initial_world f) = Return () (loaded f s)"
    using init_store[OF a] by (simp add: loaded_def)
  have m: "main E f = body E (loaded f s)" using i by (simp add: main_body)
  have "map_of (disk (loaded f s)) vectorStorePath \<noteq> None" using a by (simp add: loaded_def)
  then show p: "addItemsToVectorStore E (loaded f s) =
      Return () (emit (Exists vectorStorePath) (loaded f s))"
    by (rule addItems_present)
  from body_after_ingestion(2)[of E "loaded f s"] obtain t where
    "trace (world_of (body E (loaded f s))) =
       trace (world_of (addItemsToVectorStore E (loaded f s))) @ t" by blast
  then show "\<exists>t. trace (world_of (main E f)) =
           [Exists vectorStorePath, Load vectorStorePath, Exists vectorStorePath] @ t"
    unfolding m p by (simp add: loaded_def)
qed

text \<open>
  Claim C10.  The store handle and the ingestion step each check the store path, one
  check after the other with nothing in between, so they see the same disk and agree.
  When the path does not exist, the handle is a store that was just created, the
  ingestion step runs on it and is not skipped: the run never loads, the calls after the
  two checks are those of the catalog items, and the store at the end of the run, at
  every outcome, is the store that the ingestion step left, a prefix of the catalog.  It
  is the whole catalog of nine entries exactly when the ingestion step returned, also
  when the run throws afterwards; and the ingestion step returns when every catalog item
  can be read and embedded and the vectors have one dimension.  When the path holds a
  store, the handle is the loaded store, the ingestion step returns right after its
  check, and the run never adds to the store: it ends with the loaded store.
\<close>
theorem load_and_ingest_agree:
  "(map_of f vectorStorePath = None \<longrightarrow>
      init_vectorStore (initial_world f) = Return () (created f) \<and>
      vectorStore (world_of (main E f)) =
        vectorStore (world_of (addItemsToVectorStore E (created f))) \<and>
      (\<exists>t. trace (world_of (main E f)) =
         trace (world_of (addItemsToVectorStore E (created f))) @ t) \<and>
      trace (world_of (addItemsToVectorStore E (created f))) =
        [Exists vectorStorePath, Exists vectorStorePath] @
        ingest_events (catalog_events E f) (catalog_entries E f)
          (length (vectorStore (world_of (main E f))))
          (returns (addItemsToVectorStore E (created f))) \<and>
      Load vectorStorePath \<notin> set (trace (world_of (main E f))) \<and>
      length (vectorStore (world_of (main E f))) \<le> 9 \<and>
      map Some (vectorStore (world_of (main E f))) =
        take (length (vectorStore (world_of (main E f)))) (catalog_entries E f) \<and>
      (returns (addItemsToVectorStore E (created f)) \<longleftrightarrow>
         length (vectorStore (world_of (main E f))) = 9) \<and>
      (length (vectorStore (world_of (main E f))) = 9 \<longrightarrow>
         map Some (vectorStore (world_of (main E f))) = catalog_entries E f) \<and>
      ((\<forall>k<9. \<exists>v d. catalog_entries E f ! k = Some (v, d) \<and> length v = n) \<longrightarrow>
         length (vectorStore (world_of (main E f))) = 9) \<and>
      (returns (main E f) \<longrightarrow> length (vectorStore (world_of (main E f))) = 9)) \<and>
   (map_of f vectorStorePath \<noteq> None \<longrightarrow>
      (\<exists>t. trace (world_of (main E f)) = Exists vectorStorePath # Load vectorStorePath # t) \<and>
      add_calls (trace (world_of (main E f))) = 0) \<and>
   (map_of f vectorStorePath = Some (StoreDir s) \<longrightarrow>
      init_vectorStore (initial_world f) = Return () (loaded f s) \<and>
      addItemsToVectorStore E (loaded f s) =
        Return () (emit (Exists vectorStorePath) (loaded f s)) \<and>
      (\<exists>t. trace (world_of (main E f)) =
         [Exists vectorStorePath, Load vectorStorePath, Exists vectorStorePath] @ t) \<and>
      vectorStore (world_of (main E f)) = s)"
proof (intro conjI impI)
  assume a: "map_of f vectorStorePath \<noteq> None"
  show "\<exists>t. trace (world_of (main E f)) = Exists vectorStorePath # Load vectorStorePath # t"
    using present_run(4)[OF a] .
  show "add_calls (trace (world_of (main E f))) = 0" using present_run(1)[OF a] .
next
  assume a: "map_of f vectorStorePath = Some (StoreDir s)"
  then have "map_of f vectorStorePath \<noteq> None" by simp
  then show "vectorStore (world_of (main E f)) = s" using present_run(3) a by blast
  show "init_vectorStore (initial_world f) = Return () (loaded f s)" using loaded_run(1)[OF a] .
  show "addItemsToVectorStore E (loaded f s) =
        Return () (emit (Exists vectorStorePath) (loaded f s))"
    using loaded_run(2)[OF a] .
  show "\<exists>t. trace (world_of (main E f)) =
         [Exists vectorStorePath, Load vectorStorePath, Exists vectorStorePath] @ t"
    using loaded_run(3)[OF a] .
next
  assume a: "map_of f vectorStorePath = None"
  show "init_vectorStore (initial_world f) = Return () (created f)" using created_run(1)[OF a] .
  show "vectorStore (world_of (main E f)) =
        vectorStore (world_of (addItemsToVectorStore E (created f)))"
    using created_run(2)[OF a] .
  show "\<exists>t. trace (world_of (main E f)) =
         trace (world_of (addItemsToVectorStore E (created f))) @ t"
    using created_run(3)[OF a] .
  show "trace (world_of (addItemsToVectorStore E (created f))) =
        [Exists vectorStorePath, Exists vectorStorePath] @
        ingest_events (catalog_events E f) (catalog_entries E f)
          (length (vectorStore (world_of (main E f))))
          (returns (addItemsToVectorStore E (created f)))"
    using created_run(4)[OF a] .
  show "Load vectorStorePath \<notin> set (trace (world_of (main E f)))" using absent_run(1)[OF a] .
  show "length (vectorStore (world_of (main E f))) \<le> 9" using absent_run(2)[OF a] .
  show p: "map Some (vectorStore (world_of (main E f))) =
        take (length (vectorStore (world_of (main E f)))) (catalog_entries E f)"
    using absent_run(3)[OF a] .
  show r: "returns (addItemsToVectorStore E (created f)) \<longleftrightarrow>
         length (vectorStore (world_of (main E f))) = 9"
    using created_run(5)[OF a] .
  show "map Some (vectorStore (world_of (main E f))) = catalog_entries E f"
    if "length (vectorStore (world_of (main E f))) = 9"
    using p that by simp
  show "length (vectorStore (world_of (main E f))) = 9"
    if "\<forall>k<9. \<exists>v d. catalog_entries E f ! k = Some (v, d) \<and> length v = n"
    using created_run(6)[OF a that] r by simp
  show "length (vectorStore (world_of (main E f))) = 9" if "returns (main E f)"
  proof -
    have "length (map Some (vectorStore (world_of (main E f)))) = 9"
      unfolding absent_run(4)[OF a that] by simp
    then show ?thesis by simp
  qed
qed

lemma unprepared_entries:
  "\<forall>k<9. \<exists>v d. catalog_entries far_env unprepared_disk ! k = Some (v, d) \<and> length v = 2"
  by (rule all_less_9I)
     (simp_all add: catalog_entries_def image_entry_def text_entry_def images_def texts_def
        unprepared_disk_def far_env_def nth_append)

lemma unprepared_run:
  "error_of (main far_env unprepared_disk) = Some (ENOENT ''output'')"
  by (simp add: main_def body_def init_vectorStore_def initial_world_def
      addItemsToVectorStore_def existsSync_def images_loop.simps texts_loop.simps
      addImage_def addText_def readFileSync_def call_embedImageQuery_def call_embedQuery_def
      addVectors_def console_log_def Let_def unprepared_disk_def far_env_def
      images_def texts_def vectorStorePath_def Document_def
      textSimilaritySearch_def clearDirectory_def readdirSync_def emit_def)

theorem load_and_ingest_agree_witness:
  "map_of unprepared_disk vectorStorePath = None \<and>
   error_of (main far_env unprepared_disk) = Some (ENOENT ''output'') \<and>
   length (vectorStore (world_of (main far_env unprepared_disk))) = 9 \<and>
   returns (addItemsToVectorStore far_env (created unprepared_disk)) \<and>
   take 3 (trace (world_of (main far_env unprepared_disk))) =
     [Exists ''vector_store'', Exists ''vector_store'', ReadFile ''images/dog.jpeg''] \<and>
   Load vectorStorePath \<notin> set (trace (world_of (main far_env unprepared_disk))) \<and>
   map_of stored_disk vectorStorePath =
     Some (StoreDir [([30, 0], \<lparr>pageContent = Some ''Dogs are domesticated mammals.'',
                             metadata = \<lparr>id_md = 6, mediaType = ''text'', path = None\<rparr>\<rparr>)]) \<and>
   vectorStore (world_of (main far_env stored_disk)) =
     [([30, 0], \<lparr>pageContent = Some ''Dogs are domesticated mammals.'',
                             metadata = \<lparr>id_md = 6, mediaType = ''text'', path = None\<rparr>\<rparr>)] \<and>
   take 3 (trace (world_of (main far_env stored_disk))) =
     [Exists ''vector_store'', Load ''vector_store'', Exists ''vector_store''] \<and>
   add_calls (trace (world_of (main far_env stored_disk))) = 0"
proof -
  let ?s = "[([30, 0], \<lparr>pageContent = Some ''Dogs are domesticated mammals.'',
                             metadata = \<lparr>id_md = 6, mediaType = ''text'', path = None\<rparr>\<rparr>)]"
  let ?i = "addItemsToVectorStore far_env (created unprepared_disk)"
  note a = load_and_ingest_agree[of unprepared_disk far_env 2 "[]"]
  note b = load_and_ingest_agree[of stored_disk far_env 2 ?s]
  have 0: "map_of unprepared_disk vectorStorePath = None"
    by (simp add: unprepared_disk_def vectorStorePath_def)
  have 1: "length (vectorStore (world_of (main far_env unprepared_disk))) = 9"
    using a 0 unprepared_entries by blast
  have 2: "returns ?i" using a 0 1 by blast
  have 3: "Load vectorStorePath \<notin> set (trace (world_of (main far_env unprepared_disk)))"
    using a 0 by blast
  from a 0 obtain t where t: "trace (world_of (main far_env unprepared_disk)) = trace (world_of ?i) @ t"
    by blast
  from a 0 have "trace (world_of ?i) =
        [Exists vectorStorePath, Exists vectorStorePath] @
        ingest_events (catalog_events far_env unprepared_disk) (catalog_entries far_env unprepared_disk)
          (length (vectorStore (world_of (main far_env unprepared_disk)))) (returns ?i)"
    by blast
  then have "trace (world_of ?i) =
        [Exists vectorStorePath, Exists vectorStorePath] @
        concat (catalog_events far_env unprepared_disk)"
    using 1 2 by (simp add: ingest_events_def)
  moreover have "\<exists>es. concat (catalog_events far_env unprepared_disk) =
      ReadFile ''images/dog.jpeg'' # es"
    by (simp add: catalog_events_def image_events_def images_def upt_rec)
  ultimately have 4: "take 3 (trace (world_of (main far_env unprepared_disk))) =
     [Exists ''vector_store'', Exists ''vector_store'', ReadFile ''images/dog.jpeg'']"
    using t by (auto simp: vectorStorePath_def)
  have 5: "map_of stored_disk vectorStorePath = Some (StoreDir ?s)"
    by (simp add: stored_disk_def vectorStorePath_def)
  have 6: "vectorStore (world_of (main far_env stored_disk)) = ?s"
    "add_calls (trace (world_of (main far_env stored_disk))) = 0"
    using b 5 by auto
  from b 5 obtain t' where "trace (world_of (main far_env stored_disk)) =
         [Exists vectorStorePath, Load vectorStorePath, Exists vectorStorePath] @ t'"
    by blast
  then have 7: "take 3 (trace (world_of (main far_env stored_disk))) =
     [Exists ''vector_store'', Load ''vector_store'', Exists ''vector_store'']"
    by (simp add: vectorStorePath_def)
  show ?thesis using 0 unprepared_run 1 2 3 4 5 6 7 by blast
qed

subsection \<open>Exact search\<close>





subsection \<open>The dimension of the store\<close>


























end
